theory Spec2Isabelle
  imports Complex_Main "HOL-Library.Log_Nat"
begin

section \<open>IEEE 754 binary64 values, as Go's \<open>float64\<close>\<close>

text \<open>
  The package is a thin layer of \<open>float64\<close> arithmetic over \<open>time.Time\<close>:
  \<^verbatim>\<open>type Date float64\<close>. A \<open>float64\<close> is modelled by its fields. A finite value
  \<open>Finite s m e\<close> has sign \<open>s\<close> (\<open>True\<close> is negative), integer significand \<open>m\<close> and
  exponent \<open>e\<close> of the last place, and stands for \<open>\<plusminus> m * 2 ^ e\<close>. The values of
  the format are those with \<open>0 \<le> m < 2 ^ 53\<close> and \<open>- 1074 \<le> e \<le> 971\<close>, normalised so
  that \<open>m < 2 ^ 52\<close> only at the least exponent (the subnormal numbers and the two
  zeros). Arithmetic computes the exact rational result and rounds it to the nearest
  value, ties to the even significand, as the hardware does.
\<close>

datatype f64 = Finite bool int int | Infinity bool | NaN

fun valof :: "f64 \<Rightarrow> rat" where
  "valof (Finite s m e) = (if s then - 1 else 1) * of_int m * 2 powi e"
| "valof (Infinity s) = 0"
| "valof NaN = 0"

fun wf_f64 :: "f64 \<Rightarrow> bool" where
  "wf_f64 (Finite s m e) =
     (0 \<le> m \<and> m < 2 ^ 53 \<and> - 1074 \<le> e \<and> e \<le> 971 \<and> (e = - 1074 \<or> 2 ^ 52 \<le> m))"
| "wf_f64 (Infinity s) = True"
| "wf_f64 NaN = True"

fun is_finite :: "f64 \<Rightarrow> bool" where
  "is_finite (Finite s m e) = True"
| "is_finite (Infinity s) = False"
| "is_finite NaN = False"

text \<open>Round half to even, to an integer.\<close>

definition rhe :: "rat \<Rightarrow> int" where
  "rhe x = (let f = \<lfloor>x\<rfloor>; d = x - of_int f in
     if d < 1 / 2 then f else if 1 / 2 < d then f + 1 else if even f then f else f + 1)"

text \<open>The binary exponent of a positive rational: \<open>2 ^ ilog2 q \<le> q < 2 ^ (ilog2 q + 1)\<close>.\<close>

definition ilog2 :: "rat \<Rightarrow> int" where
  "ilog2 q = (if 1 \<le> q then bitlen \<lfloor>q\<rfloor> - 1 else - bitlen (\<lceil>1 / q\<rceil> - 1))"

text \<open>
  Rounding of an exact result to \<open>float64\<close>: 53 significant bits, gradual underflow
  below \<open>2 ^ - 1022\<close>, overflow to infinity. A result that rounds to zero keeps its sign.
  That the function returns a value of the format, that no value of the format is
  nearer to the exact result, and that a tie goes to the even significand, is proved
  below (\<open>wf_round_f64\<close>, \<open>round_f64_nearest\<close>, \<open>rhe_tie_even\<close>).
\<close>

definition round_f64 :: "rat \<Rightarrow> f64" where
  "round_f64 q = (if q = 0 then Finite False 0 (- 1074) else
     let a = \<bar>q\<bar>;
         e = max (- 1074) (ilog2 a - 52);
         m = rhe (a / 2 powi e);
         m' = (if m = 2 ^ 53 then 2 ^ 52 else m);
         e' = (if m = 2 ^ 53 then e + 1 else e)
     in if 971 < e' then Infinity (q < 0) else Finite (q < 0) m' e')"

text \<open>
  The exponent that \<open>round_f64\<close> selects and the value it returns when it does not
  overflow; both serve the proofs only.
\<close>

definition expo :: "rat \<Rightarrow> int" where
  "expo q = max (- 1074) (ilog2 \<bar>q\<bar> - 52)"

definition rnd :: "rat \<Rightarrow> rat" where
  "rnd q = (if q = 0 then 0 else sgn q * of_int (rhe (\<bar>q\<bar> / 2 powi expo q)) * 2 powi expo q)"

definition is_rep :: "rat \<Rightarrow> bool" where
  "is_rep q = (\<exists>m e. q = of_int m * 2 powi e \<and> \<bar>m\<bar> < 2 ^ 53 \<and> - 1074 \<le> e \<and> e \<le> 971)"

text \<open>
  The values of \<open>Time\<close> and of the product that \<open>UnixNano\<close> converts, for an instant
  in the range of \<open>int64\<close>, with every rounding written out (\<open>Time_value_eq\<close> and
  \<open>UnixNano_chain\<close> below); they serve the proofs only.
\<close>

definition Time_value :: "int \<Rightarrow> rat" where
  "Time_value n = rnd (rnd (rnd (of_int n) / 86400000000000) + 24405875 / 10)"

definition roundtrip_value :: "int \<Rightarrow> rat" where
  "roundtrip_value n = rnd (rnd (Time_value n - 24405875 / 10) * 86400000000000)"

fun f64_neg :: "f64 \<Rightarrow> f64" where
  "f64_neg (Finite s m e) = Finite (\<not> s) m e"
| "f64_neg (Infinity s) = Infinity (\<not> s)"
| "f64_neg NaN = NaN"

fun f64_add :: "f64 \<Rightarrow> f64 \<Rightarrow> f64" where
  "f64_add NaN y = NaN"
| "f64_add x NaN = NaN"
| "f64_add (Infinity s) (Infinity t) = (if s = t then Infinity s else NaN)"
| "f64_add (Infinity s) (Finite t n k) = Infinity s"
| "f64_add (Finite s m e) (Infinity t) = Infinity t"
| "f64_add (Finite s m e) (Finite t n k) =
     (let r = valof (Finite s m e) + valof (Finite t n k)
      in if r = 0 then Finite (s \<and> t) 0 (- 1074) else round_f64 r)"

definition f64_sub :: "f64 \<Rightarrow> f64 \<Rightarrow> f64" where
  "f64_sub x y = f64_add x (f64_neg y)"

fun f64_mul :: "f64 \<Rightarrow> f64 \<Rightarrow> f64" where
  "f64_mul NaN y = NaN"
| "f64_mul x NaN = NaN"
| "f64_mul (Infinity s) (Infinity t) = Infinity (s \<noteq> t)"
| "f64_mul (Infinity s) (Finite t n k) = (if n = 0 then NaN else Infinity (s \<noteq> t))"
| "f64_mul (Finite s m e) (Infinity t) = (if m = 0 then NaN else Infinity (s \<noteq> t))"
| "f64_mul (Finite s m e) (Finite t n k) =
     (let r = valof (Finite s m e) * valof (Finite t n k)
      in if r = 0 then Finite (s \<noteq> t) 0 (- 1074) else round_f64 r)"

fun f64_div :: "f64 \<Rightarrow> f64 \<Rightarrow> f64" where
  "f64_div NaN y = NaN"
| "f64_div x NaN = NaN"
| "f64_div (Infinity s) (Infinity t) = NaN"
| "f64_div (Infinity s) (Finite t n k) = Infinity (s \<noteq> t)"
| "f64_div (Finite s m e) (Infinity t) = Finite (s \<noteq> t) 0 (- 1074)"
| "f64_div (Finite s m e) (Finite t n k) =
     (if n = 0 then (if m = 0 then NaN else Infinity (s \<noteq> t))
      else if m = 0 then Finite (s \<noteq> t) 0 (- 1074)
      else round_f64 (valof (Finite s m e) / valof (Finite t n k)))"

text \<open>Go's comparison operators on \<open>float64\<close>: every comparison with a NaN is false.\<close>

fun f64_lt :: "f64 \<Rightarrow> f64 \<Rightarrow> bool" where
  "f64_lt NaN y = False"
| "f64_lt x NaN = False"
| "f64_lt (Infinity s) (Infinity t) = (s \<and> \<not> t)"
| "f64_lt (Infinity s) (Finite t n k) = s"
| "f64_lt (Finite s m e) (Infinity t) = (\<not> t)"
| "f64_lt (Finite s m e) (Finite t n k) = (valof (Finite s m e) < valof (Finite t n k))"

fun f64_eq :: "f64 \<Rightarrow> f64 \<Rightarrow> bool" where
  "f64_eq NaN y = False"
| "f64_eq x NaN = False"
| "f64_eq (Infinity s) (Infinity t) = (s = t)"
| "f64_eq (Infinity s) (Finite t n k) = False"
| "f64_eq (Finite s m e) (Infinity t) = False"
| "f64_eq (Finite s m e) (Finite t n k) = (valof (Finite s m e) = valof (Finite t n k))"

definition f64_le :: "f64 \<Rightarrow> f64 \<Rightarrow> bool" where
  "f64_le x y = (f64_lt x y \<or> f64_eq x y)"

text \<open>
  Conversions. An \<open>int64\<close> (and \<open>int\<close>, 64 bits wide on the platforms considered)
  is an integer in the range of \<open>in_int64\<close>. Converting an integer to \<open>float64\<close> rounds to
  nearest. Converting a \<open>float64\<close> to an integer type truncates towards zero; when the
  truncated value does not fit, or the operand is an infinity or a NaN, the Go
  specification leaves the result to the implementation: that case is \<open>None\<close>.
\<close>

definition in_int64 :: "int \<Rightarrow> bool" where
  "in_int64 n = (- (2 ^ 63) \<le> n \<and> n < 2 ^ 63)"

definition f64_of_int :: "int \<Rightarrow> f64" where
  "f64_of_int n = round_f64 (of_int n)"

definition f64_const :: "rat \<Rightarrow> f64" where
  "f64_const c = round_f64 c"

definition trunc :: "rat \<Rightarrow> int" where
  "trunc q = (if 0 \<le> q then \<lfloor>q\<rfloor> else \<lceil>q\<rceil>)"

fun int64_of_f64 :: "f64 \<Rightarrow> int option" where
  "int64_of_f64 (Finite s m e) =
     (let n = trunc (valof (Finite s m e)) in if in_int64 n then Some n else None)"
| "int64_of_f64 (Infinity s) = None"
| "int64_of_f64 NaN = None"

text \<open>
  \<open>math.Mod(x, y)\<close> is the floating-point remainder of \<open>x / y\<close>: exact, of magnitude
  less than \<open>y\<close>, with the sign of \<open>x\<close>. Its special cases are those the \<open>math\<close>
  package documents: NaN for an infinite or NaN \<open>x\<close>, for a zero or NaN \<open>y\<close>, and \<open>x\<close>
  itself for an infinite \<open>y\<close>.
\<close>

fun math_Mod :: "f64 \<Rightarrow> f64 \<Rightarrow> f64" where
  "math_Mod NaN y = NaN"
| "math_Mod x NaN = NaN"
| "math_Mod (Infinity s) y = NaN"
| "math_Mod (Finite s m e) (Infinity t) = Finite s m e"
| "math_Mod (Finite s m e) (Finite t n k) =
     (if n = 0 then NaN
      else let x = valof (Finite s m e); y = valof (Finite t n k);
               r = x - y * of_int (trunc (x / y))
           in if r = 0 then Finite s 0 (- 1074) else round_f64 r)"

section \<open>The \<open>time\<close> package, as far as the code uses it\<close>

text \<open>
  A \<open>time.Time\<close> is an instant; the model identifies it with its count of nanoseconds
  since 1970-01-01T00:00:00 UTC, an unbounded integer. \<open>UnixNano\<close> returns that count
  as an \<open>int64\<close>. The count fits from 1677-09-21 to 2262-04-11 (\<open>in_int64\<close>); outside
  that range the documentation calls the result undefined, and the 64-bit arithmetic of
  the implementation wraps around. \<open>time.Unix(sec, nsec)\<close> is the instant \<open>sec\<close>
  seconds and \<open>nsec\<close> nanoseconds after the epoch.
\<close>

type_synonym time = int

definition wrap64 :: "int \<Rightarrow> int" where
  "wrap64 n = (n + 2 ^ 63) mod 2 ^ 64 - 2 ^ 63"

definition Time_UnixNano :: "time \<Rightarrow> int" where
  "Time_UnixNano t = wrap64 t"

definition time_Unix :: "int \<Rightarrow> int \<Rightarrow> time" where
  "time_Unix sec nsec = sec * 1000000000 + nsec"

datatype panic = Panic

text \<open>
  Modelled from the spec: \<open>time.Date\<close> of the standard library, which the package calls
  and does not contain. The functions that call it take it as a parameter; the
  following function is one such \<open>time.Date\<close>, for a concrete instance. As the
  specification and the comment of \<open>NewDate\<close> describe it: a nil location panics;
  otherwise the month overflows into the year, the nanoseconds, seconds, minutes and
  hours overflow upwards into the day, a day beyond the month runs on into the
  following months (the days are counted in the proleptic Gregorian calendar), and the
  zone offset of the location is subtracted. A location is the function from a count
  of seconds since the epoch to the offset in force, in seconds east of UTC; at a
  daylight-saving transition the offset chosen is one of the two in force around it.
\<close>

definition norm_carry :: "int \<Rightarrow> int \<Rightarrow> int \<Rightarrow> int \<times> int" where
  "norm_carry hi lo base = (hi + lo div base, lo mod base)"

definition days_before_civil :: "int \<Rightarrow> int \<Rightarrow> int" where
  "days_before_civil y m =
     (let y' = (if m \<le> 2 then y - 1 else y);
          era = y' div 400;
          yoe = y' - era * 400;
          mp = (m + 9) mod 12;
          doy = (153 * mp + 2) div 5;
          doe = yoe * 365 + yoe div 4 - yoe div 100 + doy
      in era * 146097 + doe - 719468)"

definition time_Date_std ::
  "int \<Rightarrow> int \<Rightarrow> int \<Rightarrow> int \<Rightarrow> int \<Rightarrow> int \<Rightarrow> int \<Rightarrow> (int \<Rightarrow> int) option \<Rightarrow> panic + time" where
  "time_Date_std year month day hour minute sec nsec loc =
     (case loc of
        None \<Rightarrow> Inl Panic
      | Some zone \<Rightarrow>
          (let (year1, m) = norm_carry year (month - 1) 12;
               (sec1, nsec1) = norm_carry sec nsec 1000000000;
               (min1, sec2) = norm_carry minute sec1 60;
               (hour1, min2) = norm_carry hour min1 60;
               (day1, hour2) = norm_carry day hour1 24;
               unix = (days_before_civil year1 (m + 1) + day1 - 1) * 86400
                        + hour2 * 3600 + min2 * 60 + sec2;
               offset = zone (unix - zone unix)
           in Inr ((unix - offset) * 1000000000 + nsec1)))"

section \<open>julian.go: the \<open>Date\<close> type\<close>

text \<open>
  \<^verbatim>\<open>const ( day_seconds = 86400; day_nanoseconds = day_seconds * 1_000_000_000;
          julian_unix = 2440587.5; days_p_century = 36525; epoch_j2000 = 2451545 )\<close>
\<close>

definition day_seconds :: int where
  "day_seconds = 86400"

definition day_nanoseconds :: int where
  "day_nanoseconds = day_seconds * 1000000000"

definition julian_unix :: rat where
  "julian_unix = 24405875 / 10"

definition days_p_century :: int where
  "days_p_century = 36525"

definition epoch_j2000 :: int where
  "epoch_j2000 = 2451545"

text \<open>
  \<^verbatim>\<open>func Time(t time.Time) Date {
      j := float64(t.UnixNano())/day_nanoseconds + julian_unix
      return Date(j) }\<close>
  The untyped constants take the type \<open>float64\<close> of the other operand.
\<close>

definition Time :: "time \<Rightarrow> f64" where
  "Time t = f64_add (f64_div (f64_of_int (Time_UnixNano t)) (f64_of_int day_nanoseconds))
              (f64_const julian_unix)"

text \<open>
  \<open>NewDate\<close> builds the instant with \<open>time.Date\<close> of the standard library, which is
  outside the package: it is the parameter \<open>time_Date\<close>, a function that panics or
  returns an instant. \<open>None\<close> is the nil location.
\<close>

definition NewDate ::
  "(int \<Rightarrow> int \<Rightarrow> int \<Rightarrow> int \<Rightarrow> int \<Rightarrow> int \<Rightarrow> int \<Rightarrow> 'loc option \<Rightarrow> panic + time) \<Rightarrow>
     int \<Rightarrow> int \<Rightarrow> int \<Rightarrow> int \<Rightarrow> int \<Rightarrow> int \<Rightarrow> int \<Rightarrow> 'loc option \<Rightarrow> panic + f64" where
  "NewDate time_Date year month day hour minute sec nsec loc =
     (case time_Date year month day hour minute sec nsec loc of
        Inl p \<Rightarrow> Inl p
      | Inr t \<Rightarrow> Inr (f64_add (f64_div (f64_of_int (Time_UnixNano t)) (f64_of_int day_nanoseconds))
                        (f64_const julian_unix)))"

text \<open>
  \<^verbatim>\<open>func (jd Date) Unix() int64 { return int64((jd - julian_unix) * day_seconds) }\<close>
  \<^verbatim>\<open>func (jd Date) UnixNano() int64 { return int64((jd - julian_unix) * day_nanoseconds) }\<close>
  The subtraction and the product are each rounded to \<open>float64\<close>; no fused operation
  applies to a difference followed by a product. The result is \<open>None\<close> where the
  conversion to \<open>int64\<close> is left to the implementation.
\<close>

definition Date_Unix :: "f64 \<Rightarrow> int option" where
  "Date_Unix jd = int64_of_f64 (f64_mul (f64_sub jd (f64_const julian_unix)) (f64_of_int day_seconds))"

definition Date_UnixNano :: "f64 \<Rightarrow> int option" where
  "Date_UnixNano jd =
     int64_of_f64 (f64_mul (f64_sub jd (f64_const julian_unix)) (f64_of_int day_nanoseconds))"

text \<open>\<^verbatim>\<open>func (jd Date) Gregorian() time.Time { return time.Unix(0, jd.UnixNano()) }\<close>\<close>

definition Date_Gregorian :: "f64 \<Rightarrow> time option" where
  "Date_Gregorian jd = map_option (time_Unix 0) (Date_UnixNano jd)"

text \<open>
  \<^verbatim>\<open>func (jd Date) Time() float64 { return math.Mod(float64(jd), 1) }\<close>
  \<^verbatim>\<open>func (jd Date) Duration() time.Duration {
      return time.Duration(day_nanoseconds * math.Mod(float64(jd), 1)) }\<close>
\<close>

definition Date_Time :: "f64 \<Rightarrow> f64" where
  "Date_Time jd = math_Mod jd (f64_of_int 1)"

definition Date_Duration :: "f64 \<Rightarrow> int option" where
  "Date_Duration jd = int64_of_f64 (f64_mul (f64_of_int day_nanoseconds) (math_Mod jd (f64_of_int 1)))"

text \<open>
  \<^verbatim>\<open>func (jd Date) Day() float64 { return float64(jd) }\<close>
  \<^verbatim>\<open>func (jd Date) DayNumber() int { return int(jd) }\<close>
  \<^verbatim>\<open>func (jd Date) Century() float64 { return float64(jd-epoch_j2000) / days_p_century }\<close>
\<close>

definition Date_Day :: "f64 \<Rightarrow> f64" where
  "Date_Day jd = jd"

definition Date_DayNumber :: "f64 \<Rightarrow> int option" where
  "Date_DayNumber jd = int64_of_f64 jd"

definition Date_Century :: "f64 \<Rightarrow> f64" where
  "Date_Century jd = f64_div (f64_sub jd (f64_of_int epoch_j2000)) (f64_of_int days_p_century)"

section \<open>The legacy \<open>Julian\<close> type\<close>

text \<open>
  The second file declares \<^verbatim>\<open>type Julian float64\<close> with its own constants
  (\<open>seconds\<close>, \<open>nanoseconds\<close>, \<open>julian_unix\<close>, \<open>days_p_century\<close>, \<open>epoch_j2000\<close>), the
  functions \<open>Time\<close> and \<open>Date\<close> (here \<open>Julian_of_Time\<close> and \<open>Julian_of_Date\<close>) and the
  methods \<open>Gregorian\<close>, \<open>Unix\<close>, \<open>UnixNano\<close>, \<open>Time\<close>, \<open>Day\<close>, \<open>DayNumber\<close> and \<open>Century\<close>.
  It has no \<open>Duration\<close>.
\<close>

definition seconds :: int where
  "seconds = 86400"

definition nanoseconds :: int where
  "nanoseconds = seconds * 1000000000"

definition Julian_julian_unix :: rat where
  "Julian_julian_unix = 24405875 / 10"

definition Julian_days_p_century :: int where
  "Julian_days_p_century = 36525"

definition Julian_epoch_j2000 :: int where
  "Julian_epoch_j2000 = 2451545"

definition Julian_of_Time :: "time \<Rightarrow> f64" where
  "Julian_of_Time t = f64_add (f64_div (f64_of_int (Time_UnixNano t)) (f64_of_int nanoseconds))
              (f64_const Julian_julian_unix)"

definition Julian_of_Date ::
  "(int \<Rightarrow> int \<Rightarrow> int \<Rightarrow> int \<Rightarrow> int \<Rightarrow> int \<Rightarrow> int \<Rightarrow> 'loc option \<Rightarrow> panic + time) \<Rightarrow>
     int \<Rightarrow> int \<Rightarrow> int \<Rightarrow> int \<Rightarrow> int \<Rightarrow> int \<Rightarrow> int \<Rightarrow> 'loc option \<Rightarrow> panic + f64" where
  "Julian_of_Date time_Date year month day hour minute sec nsec loc =
     (case time_Date year month day hour minute sec nsec loc of
        Inl p \<Rightarrow> Inl p
      | Inr t \<Rightarrow> Inr (f64_add (f64_div (f64_of_int (Time_UnixNano t)) (f64_of_int nanoseconds))
                        (f64_const Julian_julian_unix)))"

definition Julian_Unix :: "f64 \<Rightarrow> int option" where
  "Julian_Unix j = int64_of_f64 (f64_mul (f64_sub j (f64_const Julian_julian_unix)) (f64_of_int seconds))"

definition Julian_UnixNano :: "f64 \<Rightarrow> int option" where
  "Julian_UnixNano j =
     int64_of_f64 (f64_mul (f64_sub j (f64_const Julian_julian_unix)) (f64_of_int nanoseconds))"

definition Julian_Gregorian :: "f64 \<Rightarrow> time option" where
  "Julian_Gregorian j = map_option (time_Unix 0) (Julian_UnixNano j)"

definition Julian_Time :: "f64 \<Rightarrow> f64" where
  "Julian_Time j = math_Mod j (f64_of_int 1)"

definition Julian_Day :: "f64 \<Rightarrow> f64" where
  "Julian_Day j = j"

definition Julian_DayNumber :: "f64 \<Rightarrow> int option" where
  "Julian_DayNumber j = int64_of_f64 j"

definition Julian_Century :: "f64 \<Rightarrow> f64" where
  "Julian_Century j =
     f64_div (f64_sub j (f64_of_int Julian_epoch_j2000)) (f64_of_int Julian_days_p_century)"

section \<open>Rounding: binary exponent and rounding to an integer\<close>

lemma ilog2_bounds:
  assumes "0 < q"
  shows "2 powi (ilog2 q) \<le> q" and "q < 2 powi (ilog2 q + 1)"
proof -
  have "2 powi (ilog2 q) \<le> q \<and> q < 2 powi (ilog2 q + 1)"
  proof (cases "1 \<le> q")
    case True
    define n where "n = \<lfloor>q\<rfloor>"
    have n1: "1 \<le> n" using True by (simp add: n_def le_floor_iff)
    then have npos: "0 < n" by simp
    have b1: "1 \<le> bitlen n" using npos by (simp add: bitlen_alt_def)
    from bitlen_bounds[OF npos]
    have lo: "(2::int) ^ nat (bitlen n - 1) \<le> n" and hi: "n < 2 ^ nat (bitlen n)" by auto
    have "(2::rat) powi (bitlen n - 1) = of_int (2 ^ nat (bitlen n - 1))"
      using b1 by (simp add: power_int_def)
    also have "\<dots> \<le> of_int n" using lo by (simp only: of_int_le_iff)
    also have "\<dots> \<le> q" by (simp add: n_def)
    finally have A: "(2::rat) powi (bitlen n - 1) \<le> q" .
    have "n + 1 \<le> 2 ^ nat (bitlen n)" using hi by simp
    then have "(of_int (n + 1) :: rat) \<le> of_int (2 ^ nat (bitlen n))" by (simp only: of_int_le_iff)
    moreover have "q < of_int (n + 1)" unfolding n_def by linarith
    ultimately have "q < of_int (2 ^ nat (bitlen n))" by linarith
    also have "\<dots> = 2 powi (bitlen n)" using b1 by (simp add: power_int_def)
    finally have B: "q < 2 powi (bitlen n - 1 + 1)" by simp
    show ?thesis using A B True by (simp add: ilog2_def n_def)
  next
    case False
    define p where "p = 1 / q"
    define c where "c = \<lceil>p\<rceil>"
    have p1: "1 < p" using False assms by (simp add: p_def)
    have c2: "2 \<le> c" using p1 unfolding c_def by linarith
    then have cpos: "0 < c - 1" by simp
    define b where "b = bitlen (c - 1)"
    have b1: "1 \<le> b" using cpos by (simp add: bitlen_alt_def b_def)
    from bitlen_bounds[OF cpos]
    have lo: "(2::int) ^ nat (b - 1) \<le> c - 1" and hi: "c - 1 < 2 ^ nat b" by (auto simp: b_def)
    have "c \<le> 2 ^ nat b" using hi by simp
    then have "(of_int c :: rat) \<le> of_int (2 ^ nat b)" by (simp only: of_int_le_iff)
    moreover have "p \<le> of_int c" unfolding c_def by linarith
    ultimately have "p \<le> of_int (2 ^ nat b)" by linarith
    also have "\<dots> = 2 powi b" using b1 by (simp add: power_int_def)
    finally have pb: "p \<le> 2 powi b" .
    have "(of_int (2 ^ nat (b - 1)) :: rat) \<le> of_int (c - 1)" using lo by (simp only: of_int_le_iff)
    moreover have "of_int (c - 1) < p" unfolding c_def by linarith
    ultimately have "(of_int (2 ^ nat (b - 1)) :: rat) < p" by linarith
    moreover have "(of_int (2 ^ nat (b - 1)) :: rat) = 2 powi (b - 1)" using b1 by (simp add: power_int_def)
    ultimately have pb2: "2 powi (b - 1) < p" by simp
    have pos: "(0::rat) < 2 powi b" "(0::rat) < 2 powi (b - 1)" by simp_all
    have A: "2 powi (- b) \<le> q"
    proof -
      have "1 / (2 powi b) \<le> 1 / p" using pb p1 by (intro divide_left_mono) auto
      then show ?thesis using assms by (simp add: p_def power_int_minus_divide)
    qed
    have B: "q < 2 powi (- b + 1)"
    proof -
      have "1 / p < 1 / 2 powi (b - 1)" using pb2 pos p1 by (intro divide_strict_left_mono) (auto intro: mult_pos_pos)
      moreover have "(1::rat) / 2 powi (b - 1) = 2 powi (- (b - 1))" by (simp only: power_int_minus_divide)
      moreover have "- (b - 1) = - b + 1" by simp
      ultimately show ?thesis using assms by (simp add: p_def)
    qed
    show ?thesis using A B False by (simp add: ilog2_def b_def c_def p_def)
  qed
  then show "2 powi (ilog2 q) \<le> q" and "q < 2 powi (ilog2 q + 1)" by auto
qed

lemma pow2_less_imp: "(2::rat) powi a < 2 powi b \<Longrightarrow> a < b"
proof (rule ccontr)
  assume h: "(2::rat) powi a < 2 powi b" and "\<not> a < b"
  then have "b \<le> a" by simp
  then have "(2::rat) powi b \<le> 2 powi a" by (intro power_int_increasing) auto
  with h show False by simp
qed

lemma ilog2_unique:
  assumes "0 < q" "2 powi k \<le> q" "q < 2 powi (k + 1)"
  shows "ilog2 q = k"
proof -
  have "(2::rat) powi k < 2 powi (ilog2 q + 1)" using assms ilog2_bounds[OF assms(1)] by linarith
  then have "k < ilog2 q + 1" by (rule pow2_less_imp)
  moreover have "(2::rat) powi (ilog2 q) < 2 powi (k + 1)" using assms ilog2_bounds[OF assms(1)] by linarith
  then have "ilog2 q < k + 1" by (rule pow2_less_imp)
  ultimately show ?thesis by simp
qed

lemma ilog2_le: "0 < q \<Longrightarrow> q < 2 powi k \<Longrightarrow> ilog2 q < k"
  using ilog2_bounds(1)[of q] pow2_less_imp[of "ilog2 q" k] by linarith

lemma ilog2_ge: "0 < q \<Longrightarrow> 2 powi k \<le> q \<Longrightarrow> k \<le> ilog2 q"
  using ilog2_bounds(2)[of q] pow2_less_imp[of k "ilog2 q + 1"] by force

lemma rhe_bounds: "\<bar>of_int (rhe x) - x\<bar> \<le> 1 / 2"
proof -
  have "of_int \<lfloor>x\<rfloor> \<le> x" "x < of_int \<lfloor>x\<rfloor> + 1" by linarith+
  then show ?thesis unfolding rhe_def Let_def by (simp add: abs_le_iff)
qed

lemma rhe_of_int [simp]: "rhe (of_int n) = n"
  unfolding rhe_def Let_def by simp

lemma rhe_mono: "x \<le> y \<Longrightarrow> rhe x \<le> rhe y"
proof -
  assume xy: "x \<le> y"
  have fm: "\<lfloor>x\<rfloor> \<le> \<lfloor>y\<rfloor>" using xy by (rule floor_mono)
  show ?thesis
  proof (cases "\<lfloor>x\<rfloor> = \<lfloor>y\<rfloor>")
    case True
    then show ?thesis using xy unfolding rhe_def Let_def by (auto; linarith)
  next
    case False
    then have "\<lfloor>x\<rfloor> + 1 \<le> \<lfloor>y\<rfloor>" using fm by simp
    moreover have "rhe x \<le> \<lfloor>x\<rfloor> + 1" unfolding rhe_def Let_def by auto
    moreover have "\<lfloor>y\<rfloor> \<le> rhe y" unfolding rhe_def Let_def by auto
    ultimately show ?thesis by linarith
  qed
qed

lemma rhe_eqI: "\<bar>x - of_int n\<bar> < 1 / 2 \<Longrightarrow> rhe x = n"
proof -
  assume a: "\<bar>x - of_int n\<bar> < 1 / 2"
  have "\<bar>(of_int (rhe x) :: rat) - of_int n\<bar> < 1"
    using rhe_bounds[of x] a by linarith
  then have "\<bar>(of_int (rhe x - n) :: rat)\<bar> < 1" by simp
  then have "\<bar>rhe x - n\<bar> < 1" by (metis of_int_abs of_int_less_1_iff)
  then show ?thesis by simp
qed

section \<open>Rounding: the rounded value is monotone and near\<close>

lemma ilog2_mono: "0 < x \<Longrightarrow> x \<le> y \<Longrightarrow> ilog2 x \<le> ilog2 y"
proof -
  assume x: "0 < x" and xy: "x \<le> y"
  then have y: "0 < y" by simp
  have "(2::rat) powi (ilog2 x) < 2 powi (ilog2 y + 1)"
    using ilog2_bounds(1)[OF x] ilog2_bounds(2)[OF y] xy by linarith
  then have "ilog2 x < ilog2 y + 1" by (rule pow2_less_imp)
  then show ?thesis by simp
qed

lemma pow2_pos: "(0::rat) < 2 powi k"
  by simp

lemma pow2_add: "(2::rat) powi (a + b) = 2 powi a * 2 powi b"
  by (simp add: power_int_add)

lemma pow2_diff: "(2::rat) powi (a - b) = 2 powi a / 2 powi b"
  by (simp add: power_int_diff)

lemma pow2_mono: "a \<le> b \<Longrightarrow> (2::rat) powi a \<le> 2 powi b"
  by (intro power_int_increasing) auto

lemma expo_abs [simp]: "expo \<bar>q\<bar> = expo q" and expo_minus [simp]: "expo (- q) = expo q"
  by (simp_all add: expo_def)

lemma expo_ge: "- 1074 \<le> expo q"
  by (simp add: expo_def)

lemma expo_mono: "0 < x \<Longrightarrow> x \<le> y \<Longrightarrow> expo x \<le> expo y"
  using ilog2_mono[of x y] by (simp add: expo_def)

lemma scaled_less:
  assumes "0 < a"
  shows "a / 2 powi (expo a) < 2 ^ 53"
proof -
  have "ilog2 a + 1 \<le> expo a + 53" using assms by (simp add: expo_def)
  then have "(2::rat) powi (ilog2 a + 1) \<le> 2 powi (expo a + 53)" by (rule pow2_mono)
  then have "a < 2 powi (expo a + 53)" using ilog2_bounds(2)[OF assms] by linarith
  also have "\<dots> = 2 powi (expo a) * 2 ^ 53" by (simp add: pow2_add)
  finally show ?thesis by (simp add: pos_divide_less_eq mult.commute)
qed

lemma scaled_ge:
  assumes "0 < a" "- 1074 < expo a"
  shows "2 ^ 52 \<le> a / 2 powi (expo a)"
proof -
  have e: "expo a = ilog2 a - 52" using assms by (simp add: expo_def max_def split: if_splits)
  have "(2::rat) powi (expo a + 52) \<le> a" using ilog2_bounds(1)[OF assms(1)] by (simp add: e)
  moreover have "(2::rat) powi (expo a + 52) = 2 powi (expo a) * 2 ^ 52" by (simp add: pow2_add)
  ultimately show ?thesis by (simp add: pos_le_divide_eq mult.commute)
qed

lemma rhe_scaled_le:
  assumes "0 < a"
  shows "rhe (a / 2 powi (expo a)) \<le> 2 ^ 53"
proof -
  have "rhe (a / 2 powi (expo a)) \<le> rhe (of_int (2 ^ 53))"
    using scaled_less[OF assms] by (intro rhe_mono) simp
  then show ?thesis by (simp only: rhe_of_int)
qed

lemma rhe_scaled_ge:
  assumes "0 < a" "- 1074 < expo a"
  shows "2 ^ 52 \<le> rhe (a / 2 powi (expo a))"
proof -
  have "rhe (of_int (2 ^ 52)) \<le> rhe (a / 2 powi (expo a))"
    using scaled_ge[OF assms] by (intro rhe_mono) simp
  then show ?thesis by (simp only: rhe_of_int)
qed

lemma rhe_nonneg: "0 \<le> x \<Longrightarrow> 0 \<le> rhe x"
  using rhe_mono[of "of_int 0" x] by (simp only: rhe_of_int)

lemma rnd_0 [simp]: "rnd 0 = 0"
  by (simp add: rnd_def)

lemma rnd_minus: "rnd (- q) = - rnd q"
  by (simp add: rnd_def sgn_minus)

lemma rnd_pos: "0 < q \<Longrightarrow> rnd q = of_int (rhe (q / 2 powi expo q)) * 2 powi expo q"
  by (simp add: rnd_def)

lemma rnd_nonneg: "0 \<le> q \<Longrightarrow> 0 \<le> rnd q"
proof (cases "q = 0")
  case False
  assume "0 \<le> q"
  then have q: "0 < q" using False by simp
  have "0 \<le> rhe (q / 2 powi expo q)" using q by (intro rhe_nonneg) simp
  then show ?thesis by (simp add: rnd_pos[OF q])
qed simp

lemma rnd_mono_pos:
  assumes x: "0 < x" and xy: "x \<le> y"
  shows "rnd x \<le> rnd y"
proof -
  have y: "0 < y" using x xy by simp
  have le: "expo x \<le> expo y" using x xy by (rule expo_mono)
  show ?thesis
  proof (cases "expo x = expo y")
    case True
    have "x / 2 powi expo y \<le> y / 2 powi expo y" using xy by (simp add: divide_right_mono)
    then have "rhe (x / 2 powi expo y) \<le> rhe (y / 2 powi expo y)" by (rule rhe_mono)
    then have "(of_int (rhe (x / 2 powi expo y)) :: rat) \<le> of_int (rhe (y / 2 powi expo y))"
      by (simp only: of_int_le_iff)
    then show ?thesis by (simp add: rnd_pos[OF x] rnd_pos[OF y] True)
  next
    case False
    then have lt: "expo x + 1 \<le> expo y" using le by simp
    have ey: "- 1074 < expo y" using lt expo_ge[of x] by linarith
    have "(of_int (rhe (x / 2 powi expo x)) :: rat) \<le> of_int (2 ^ 53)"
      using rhe_scaled_le[OF x] by (simp only: of_int_le_iff)
    then have "rnd x \<le> 2 ^ 53 * 2 powi expo x"
      by (simp add: rnd_pos[OF x])
    also have "\<dots> = 2 ^ 52 * 2 powi (expo x + 1)" by (simp add: pow2_add)
    also have "\<dots> \<le> 2 ^ 52 * 2 powi (expo y)" using pow2_mono[OF lt] by simp
    also have "\<dots> \<le> rnd y"
    proof -
      have "(of_int (2 ^ 52) :: rat) \<le> of_int (rhe (y / 2 powi expo y))"
        using rhe_scaled_ge[OF y ey] by (simp only: of_int_le_iff)
      then show ?thesis by (simp add: rnd_pos[OF y])
    qed
    finally show ?thesis .
  qed
qed

lemma rnd_mono: "x \<le> y \<Longrightarrow> rnd x \<le> rnd y"
proof -
  assume xy: "x \<le> y"
  consider "0 < x" | "x \<le> 0" "0 \<le> y" | "y < 0" by linarith
  then show ?thesis
  proof cases
    case 1
    then show ?thesis using xy by (rule rnd_mono_pos)
  next
    case 2
    have "rnd x \<le> 0" using rnd_nonneg[of "- x"] 2 by (simp add: rnd_minus)
    moreover have "0 \<le> rnd y" using 2 by (intro rnd_nonneg)
    ultimately show ?thesis by simp
  next
    case 3
    have "rnd (- y) \<le> rnd (- x)" using 3 xy by (intro rnd_mono_pos) auto
    then show ?thesis by (simp add: rnd_minus)
  qed
qed

lemma rnd_error: "\<bar>rnd q - q\<bar> \<le> 2 powi (expo q) / 2"
proof -
  have pos: "\<bar>rnd a - a\<bar> \<le> 2 powi (expo a) / 2" if a: "0 < a" for a
  proof -
    define s where "s = a / 2 powi expo a"
    have as: "a = s * 2 powi expo a" by (simp add: s_def)
    have "rnd a - a = (of_int (rhe s) - s) * 2 powi expo a"
      using as by (simp add: rnd_pos[OF a] s_def[symmetric] algebra_simps)
    then have "\<bar>rnd a - a\<bar> = \<bar>of_int (rhe s) - s\<bar> * 2 powi expo a"
      by (simp add: abs_mult)
    also have "\<dots> \<le> (1 / 2) * 2 powi expo a"
      using rhe_bounds[of s] by (intro mult_right_mono) auto
    finally show ?thesis by simp
  qed
  consider "0 < q" | "q = 0" | "q < 0" by linarith
  then show ?thesis
  proof cases
    case 1 then show ?thesis by (rule pos)
  next
    case 2 then show ?thesis by simp
  next
    case 3
    then have "\<bar>rnd (- q) - (- q)\<bar> \<le> 2 powi (expo (- q)) / 2" by (intro pos) simp
    then show ?thesis by (simp add: rnd_minus abs_minus_commute)
  qed
qed

lemma expo_le:
  assumes "q \<noteq> 0" "\<bar>q\<bar> < 2 powi k" "- 1021 \<le> k"
  shows "expo q \<le> k - 53"
proof -
  have "ilog2 \<bar>q\<bar> < k" using assms by (intro ilog2_le) auto
  then show ?thesis using assms(3) by (simp add: expo_def)
qed

section \<open>The arithmetic operations on finite operands\<close>

lemma round_f64_alt:
  "q \<noteq> 0 \<Longrightarrow> round_f64 q =
     (if rhe (\<bar>q\<bar> / 2 powi expo q) = 2 ^ 53
      then (if 971 < expo q + 1 then Infinity (q < 0) else Finite (q < 0) (2 ^ 52) (expo q + 1))
      else if 971 < expo q then Infinity (q < 0)
      else Finite (q < 0) (rhe (\<bar>q\<bar> / 2 powi expo q)) (expo q))"
  unfolding round_f64_def expo_def Let_def
  by (cases "rhe (\<bar>q\<bar> / 2 powi max (- 1074) (ilog2 \<bar>q\<bar> - 52)) = 2 ^ 53") (simp_all only: if_True if_False if_not_P simp_thms)

lemma sign_sgn: "q \<noteq> 0 \<Longrightarrow> (if q < 0 then - 1 else 1) = sgn (q::rat)"
  by (simp add: sgn_if)

lemma round_f64_val:
  assumes "round_f64 q = Finite s m e"
  shows "valof (Finite s m e) = rnd q"
proof (cases "q = 0")
  case True
  then show ?thesis using assms by (auto simp: round_f64_def)
next
  case False
  have c: "(2::rat) ^ 52 * 2 powi (expo q + 1) = 2 ^ 53 * 2 powi expo q"
    by (simp add: pow2_add)
  show ?thesis
    using assms False c unfolding round_f64_alt[OF False]
    by (auto simp: rnd_def sgn_if split: if_splits)
qed

lemma round_f64_finite:
  assumes "\<bar>q\<bar> < 2 powi 1023"
  shows "is_finite (round_f64 q)"
proof (cases "q = 0")
  case True
  then show ?thesis by (simp add: round_f64_def)
next
  case False
  have "expo q \<le> 1023 - 53" using False assms by (intro expo_le) auto
  then show ?thesis unfolding round_f64_alt[OF False] by simp
qed

lemma round_f64_rnd:
  assumes "\<bar>q\<bar> < 2 powi 1023"
  shows "is_finite (round_f64 q)" and "valof (round_f64 q) = rnd q"
proof -
  show f: "is_finite (round_f64 q)" using assms by (rule round_f64_finite)
  then obtain s m e where "round_f64 q = Finite s m e" by (cases "round_f64 q") auto
  then show "valof (round_f64 q) = rnd q" using round_f64_val by metis
qed

lemma valof_zero_iff: "valof (Finite s m e) = 0 \<longleftrightarrow> m = 0"
  by simp

lemma valof_neg: "valof (f64_neg x) = - valof x"
  by (cases x) auto

lemma is_finite_neg: "is_finite (f64_neg x) = is_finite x"
  by (cases x) auto

lemma f64_of_int_val:
  assumes "\<bar>of_int n :: rat\<bar> < 2 powi 1023"
  shows "is_finite (f64_of_int n)" and "valof (f64_of_int n) = rnd (of_int n)"
  unfolding f64_of_int_def using round_f64_rnd[OF assms] by auto

lemma f64_add_val:
  assumes "is_finite x" "is_finite y" "\<bar>valof x + valof y\<bar> < 2 powi 1023"
  shows "is_finite (f64_add x y)" and "valof (f64_add x y) = rnd (valof x + valof y)"
proof -
  obtain s m e where x: "x = Finite s m e" using assms(1) by (cases x) auto
  obtain t n k where y: "y = Finite t n k" using assms(2) by (cases y) auto
  have "is_finite (f64_add x y) \<and> valof (f64_add x y) = rnd (valof x + valof y)"
  proof (cases "valof x + valof y = 0")
    case True
    have "f64_add x y = Finite (s \<and> t) 0 (- 1074)"
      unfolding x y f64_add.simps Let_def using True[unfolded x y] by (simp only: if_True simp_thms)
    then show ?thesis using True by simp
  next
    case False
    have "f64_add x y = round_f64 (valof x + valof y)"
      unfolding x y f64_add.simps Let_def using False[unfolded x y] by (simp only: if_False simp_thms)
    then show ?thesis using round_f64_rnd[OF assms(3)] by simp
  qed
  then show "is_finite (f64_add x y)" and "valof (f64_add x y) = rnd (valof x + valof y)" by auto
qed

lemma f64_sub_val:
  assumes "is_finite x" "is_finite y" "\<bar>valof x - valof y\<bar> < 2 powi 1023"
  shows "is_finite (f64_sub x y)" and "valof (f64_sub x y) = rnd (valof x - valof y)"
  unfolding f64_sub_def
  using f64_add_val[of x "f64_neg y"] assms by (simp_all add: valof_neg is_finite_neg)

lemma f64_mul_val:
  assumes "is_finite x" "is_finite y" "\<bar>valof x * valof y\<bar> < 2 powi 1023"
  shows "is_finite (f64_mul x y)" and "valof (f64_mul x y) = rnd (valof x * valof y)"
proof -
  obtain s m e where x: "x = Finite s m e" using assms(1) by (cases x) auto
  obtain t n k where y: "y = Finite t n k" using assms(2) by (cases y) auto
  have "is_finite (f64_mul x y) \<and> valof (f64_mul x y) = rnd (valof x * valof y)"
  proof (cases "valof x * valof y = 0")
    case True
    have "f64_mul x y = Finite (s \<noteq> t) 0 (- 1074)"
      unfolding x y f64_mul.simps Let_def using True[unfolded x y] by (simp only: if_True simp_thms)
    then show ?thesis by (simp add: True del: mult_eq_0_iff)
  next
    case False
    have "f64_mul x y = round_f64 (valof x * valof y)"
      unfolding x y f64_mul.simps Let_def using False[unfolded x y] by (simp only: if_False simp_thms)
    then show ?thesis using round_f64_rnd[OF assms(3)] by simp
  qed
  then show "is_finite (f64_mul x y)" and "valof (f64_mul x y) = rnd (valof x * valof y)" by auto
qed

lemma f64_div_val:
  assumes "is_finite x" "is_finite y" "valof y \<noteq> 0" "\<bar>valof x / valof y\<bar> < 2 powi 1023"
  shows "is_finite (f64_div x y)" and "valof (f64_div x y) = rnd (valof x / valof y)"
proof -
  obtain s m e where x: "x = Finite s m e" using assms(1) by (cases x) auto
  obtain t n k where y: "y = Finite t n k" using assms(2) by (cases y) auto
  have n: "n \<noteq> 0" using assms(3) unfolding y by simp
  have "is_finite (f64_div x y) \<and> valof (f64_div x y) = rnd (valof x / valof y)"
  proof (cases "m = 0")
    case True
    then show ?thesis unfolding x y using n by simp
  next
    case False
    then have "f64_div x y = round_f64 (valof x / valof y)" unfolding x y using n by simp
    then show ?thesis using round_f64_rnd[OF assms(4)] by simp
  qed
  then show "is_finite (f64_div x y)" and "valof (f64_div x y) = rnd (valof x / valof y)" by auto
qed

section \<open>Exact results: representable values are not changed by rounding\<close>

lemma expo_valof:
  assumes "wf_f64 (Finite s m e)" "m \<noteq> 0"
  shows "expo (of_int m * 2 powi e) = e"
proof -
  have m: "0 < m" "m < 2 ^ 53" and e: "- 1074 \<le> e" using assms by auto
  define a :: rat where "a = of_int m * 2 powi e"
  have apos: "0 < a" using m by (simp add: a_def)
  have ahi: "a < 2 powi (e + 53)"
  proof -
    have "(of_int m :: rat) < of_int (2 ^ 53)" using m by (simp only: of_int_less_iff)
    then have "of_int m * 2 powi e < (2::rat) ^ 53 * 2 powi e" by simp
    then show ?thesis by (simp add: a_def pow2_add mult.commute)
  qed
  have ea: "expo a = max (- 1074) (ilog2 a - 52)" using apos by (simp add: expo_def)
  show ?thesis unfolding a_def[symmetric]
  proof (cases "2 ^ 52 \<le> m")
    case True
    then have "(of_int (2 ^ 52) :: rat) \<le> of_int m" by (simp only: of_int_le_iff)
    then have "(2::rat) ^ 52 * 2 powi e \<le> of_int m * 2 powi e" by simp
    then have "2 powi (e + 52) \<le> a" by (simp add: a_def pow2_add mult.commute)
    moreover have "e + 52 + 1 = e + 53" by simp
    then have "a < 2 powi (e + 52 + 1)" using ahi by (simp only:)
    ultimately have "ilog2 a = e + 52" using apos by (intro ilog2_unique)
    then show "expo a = e" using e ea by linarith
  next
    case False
    then have e': "e = - 1074" using assms by auto
    have "(of_int m :: rat) < of_int (2 ^ 52)" using False by (simp only: of_int_less_iff)
    then have "of_int m * 2 powi e < (2::rat) ^ 52 * 2 powi e" by simp
    also have "\<dots> = 2 powi (e + 52)" by (simp add: pow2_add mult.commute)
    finally have "a < 2 powi (e + 52)" by (simp add: a_def)
    then have "ilog2 a < e + 52" using apos by (intro ilog2_le)
    then show "expo a = e" using e' ea by linarith
  qed
qed

lemma round_f64_valof:
  assumes "wf_f64 (Finite s m e)" "m \<noteq> 0"
  shows "round_f64 (valof (Finite s m e)) = Finite s m e"
proof -
  have m: "0 < m" "m < 2 ^ 53" and e: "e \<le> 971" using assms by auto
  define q where "q = valof (Finite s m e)"
  have a: "\<bar>q\<bar> = of_int m * 2 powi e" using m by (simp add: q_def abs_mult)
  have q0: "q \<noteq> 0" using m by (simp add: q_def)
  have "\<not> (2::rat) powi e < 0" using pow2_pos[of e] by (simp only: not_less less_imp_le)
  then have sg: "(q < 0) = s" using m by (simp add: q_def mult_less_0_iff zero_less_mult_iff)
  have ex: "expo q = e" using expo_valof[OF assms] a expo_abs[of q] by simp
  have sc: "\<bar>q\<bar> / 2 powi e = of_int m" by (simp add: a)
  have m53: "m \<noteq> 2 ^ 53" and e971: "\<not> 971 < e" using m e by auto
  have "round_f64 q = Finite s m e"
    by (simp only: round_f64_alt[OF q0] ex sc rhe_of_int sg m53 e971 if_False)
  then show ?thesis by (simp only: q_def)
qed

lemma is_rep_0 [simp]: "is_rep 0"
  unfolding is_rep_def by (rule exI[of _ 0], rule exI[of _ 0]) simp

lemma is_rep_valof: "wf_f64 (Finite s m e) \<Longrightarrow> is_rep (valof (Finite s m e))"
  unfolding is_rep_def
  by (rule exI[of _ "if s then - m else m"], rule exI[of _ e]) auto

lemma round_f64_rep:
  assumes "is_rep q"
  shows "is_finite (round_f64 q)" and "valof (round_f64 q) = q"
proof -
  have "is_finite (round_f64 q) \<and> valof (round_f64 q) = q"
  proof (cases "q = 0")
    case True
    then show ?thesis by (simp add: round_f64_def)
  next
    case False
    obtain m e0 where q: "q = of_int m * 2 powi e0" and m: "\<bar>m\<bar> < 2 ^ 53"
      and e0: "- 1074 \<le> e0" "e0 \<le> 971"
      using assms unfolding is_rep_def by auto
    have a: "\<bar>q\<bar> = of_int \<bar>m\<bar> * 2 powi e0" by (simp add: q abs_mult)
    have apos: "0 < \<bar>q\<bar>" using False by simp
    have "(of_int \<bar>m\<bar> :: rat) < of_int (2 ^ 53)" using m by (simp only: of_int_less_iff)
    then have "of_int \<bar>m\<bar> * 2 powi e0 < (2::rat) ^ 53 * 2 powi e0" by simp
    then have "\<bar>q\<bar> < 2 powi (e0 + 53)" by (simp add: a pow2_add mult.commute)
    then have "ilog2 \<bar>q\<bar> < e0 + 53" using apos by (intro ilog2_le)
    then have le: "expo q \<le> e0" using e0 by (simp add: expo_def)
    define d where "d = nat (e0 - expo q)"
    have e0d: "e0 = expo q + int d" using le by (simp add: d_def)
    define M where "M = \<bar>m\<bar> * 2 ^ d"
    have sc: "\<bar>q\<bar> / 2 powi expo q = of_int M"
      by (simp add: a M_def, subst e0d, simp add: pow2_add)
    have rh: "rhe (\<bar>q\<bar> / 2 powi expo q) = M" by (simp only: sc rhe_of_int)
    have "(of_int M :: rat) < 2 ^ 53" using scaled_less[OF apos] sc by simp
    then have "(of_int M :: rat) < of_int (2 ^ 53)" by simp
    then have M: "M < 2 ^ 53" by (simp only: of_int_less_iff)
    have r: "round_f64 q = Finite (q < 0) M (expo q)"
      unfolding round_f64_alt[OF False] rh using M le e0 by simp
    have "of_int M * 2 powi expo q = \<bar>q\<bar>" using sc by (simp add: field_simps)
    then have "valof (Finite (q < 0) M (expo q)) = q" by (simp add: abs_if)
    then show ?thesis using r by simp
  qed
  then show "is_finite (round_f64 q)" and "valof (round_f64 q) = q" by auto
qed

lemma trunc_nonneg: "0 \<le> q \<Longrightarrow> 0 \<le> trunc q \<and> of_int (trunc q) \<le> q \<and> q < of_int (trunc q) + 1"
  unfolding trunc_def by (simp; linarith)

lemma trunc_neg: "q < 0 \<Longrightarrow> trunc q \<le> 0 \<and> q \<le> of_int (trunc q) \<and> of_int (trunc q) - 1 < q"
  unfolding trunc_def by (simp; linarith)

lemma trunc_abs_le: "\<bar>of_int (trunc q) :: rat\<bar> \<le> \<bar>q\<bar>"
proof (cases "0 \<le> q")
  case True
  then show ?thesis using trunc_nonneg[of q] by simp
next
  case False
  then have "q < 0" by simp
  then show ?thesis using trunc_neg[of q] by simp
qed

lemma frac_abs_le: "\<bar>q - of_int (trunc q)\<bar> \<le> \<bar>q\<bar>"
proof (cases "0 \<le> q")
  case True
  then show ?thesis using trunc_nonneg[of q] by simp
next
  case False
  then have "q < 0" by simp
  then show ?thesis using trunc_neg[of q] by simp
qed

lemma trunc_of_int [simp]: "trunc (of_int n) = n"
  by (simp add: trunc_def)

lemma is_rep_trunc_frac:
  assumes "is_rep q"
  shows "is_rep (of_int (trunc q))" and "is_rep (q - of_int (trunc q))"
proof -
  obtain m e0 where q: "q = of_int m * 2 powi e0" and m: "\<bar>m\<bar> < 2 ^ 53"
    and e0: "- 1074 \<le> e0" "e0 \<le> 971"
    using assms unfolding is_rep_def by auto
  have "is_rep (of_int (trunc q)) \<and> is_rep (q - of_int (trunc q))"
  proof (cases "0 \<le> e0")
    case True
    have "q = of_int (m * 2 ^ nat e0)" using True by (simp add: q power_int_def)
    then have "of_int (trunc q) = q" by (metis trunc_of_int)
    then show ?thesis using assms by simp
  next
    case False
    define d where "d = nat (- e0)"
    have e0d: "e0 = - int d" using False by (simp add: d_def)
    have p: "(2::rat) powi e0 * 2 ^ d = 1" by (simp add: e0d power_int_minus)
    have p1: "(2::rat) powi e0 \<le> 1" using False by (simp add: e0d power_int_minus inverse_le_1_iff)
    have qm: "\<bar>q\<bar> \<le> of_int \<bar>m\<bar>"
    proof -
      have "\<bar>q\<bar> = of_int \<bar>m\<bar> * 2 powi e0" by (simp add: q abs_mult)
      also have "\<dots> \<le> of_int \<bar>m\<bar> * 1" using p1 by (intro mult_left_mono) auto
      finally show ?thesis by simp
    qed
    have "\<bar>of_int (trunc q) :: rat\<bar> \<le> of_int \<bar>m\<bar>" using trunc_abs_le[of q] qm by linarith
    then have "(of_int \<bar>trunc q\<bar> :: rat) \<le> of_int \<bar>m\<bar>" by simp
    then have "\<bar>trunc q\<bar> \<le> \<bar>m\<bar>" by (simp only: of_int_le_iff)
    then have t: "\<bar>trunc q\<bar> < 2 ^ 53" using m by linarith
    have A: "is_rep (of_int (trunc q))"
      unfolding is_rep_def by (rule exI[of _ "trunc q"], rule exI[of _ 0]) (use t in simp)
    define M where "M = m - trunc q * 2 ^ d"
    have fr: "q - of_int (trunc q) = of_int M * 2 powi e0"
    proof -
      have "of_int M * 2 powi e0 = q - of_int (trunc q) * ((2::rat) powi e0 * 2 ^ d)"
        by (simp add: M_def q algebra_simps)
      then show ?thesis by (simp only: p mult_1_right)
    qed
    have "\<bar>of_int M * (2::rat) powi e0\<bar> \<le> \<bar>of_int m * 2 powi e0\<bar>"
      using frac_abs_le[of q] by (simp only: fr q[symmetric])
    then have "(of_int \<bar>M\<bar> :: rat) * 2 powi e0 \<le> of_int \<bar>m\<bar> * 2 powi e0" by (simp add: abs_mult)
    then have "(of_int \<bar>M\<bar> :: rat) \<le> of_int \<bar>m\<bar>" by simp
    then have "\<bar>M\<bar> \<le> \<bar>m\<bar>" by (simp only: of_int_le_iff)
    then have Mb: "\<bar>M\<bar> < 2 ^ 53" using m by linarith
    have B: "is_rep (q - of_int (trunc q))"
      unfolding is_rep_def fr by (rule exI[of _ M], rule exI[of _ e0]) (use Mb e0 in simp)
    show ?thesis using A B by simp
  qed
  then show "is_rep (of_int (trunc q))" and "is_rep (q - of_int (trunc q))" by auto
qed

section \<open>Evaluating roundings; the constants of the package\<close>

lemma round_f64_eq:
  "wf_f64 (Finite s m e) \<Longrightarrow> m \<noteq> 0 \<Longrightarrow> q = valof (Finite s m e) \<Longrightarrow> round_f64 q = Finite s m e"
  using round_f64_valof by simp

lemma round_f64_certificate:
  assumes q: "0 < q" and e: "- 1074 \<le> e" "e \<le> 971" and m: "2 ^ 52 \<le> m" "m < 2 ^ 53"
    and lo: "2 powi (e + 52) \<le> q" and near: "\<bar>q / 2 powi e - of_int m\<bar> < 1 / 2"
  shows "round_f64 q = Finite False m e"
proof -
  have "m \<le> 2 ^ 53 - 1" using m by simp
  then have "(of_int m :: rat) \<le> of_int (2 ^ 53 - 1)" by (simp only: of_int_le_iff)
  then have "(of_int m :: rat) \<le> 2 ^ 53 - 1" by simp
  then have "q / 2 powi e < 2 ^ 53" using near by linarith
  then have "q < 2 ^ 53 * 2 powi e" by (simp add: pos_divide_less_eq)
  also have "\<dots> = 2 powi (e + 52 + 1)" by (simp add: pow2_add mult.commute)
  finally have "ilog2 q = e + 52" using q lo by (intro ilog2_unique)
  then have ex: "expo q = e" using q e by (simp add: expo_def)
  have aq: "\<bar>q\<bar> = q" using q by simp
  have rh: "rhe (q / 2 powi e) = m" using near by (rule rhe_eqI)
  have q0: "q \<noteq> 0" and nq: "\<not> q < 0" using q by auto
  have m53: "m \<noteq> 2 ^ 53" and e971: "\<not> 971 < e" using m e by auto
  show ?thesis
    by (simp only: round_f64_alt[OF q0] ex aq rh nq m53 e971 if_False)
qed

lemma rhe_tie_down: "x = of_int n + 1 / 2 \<Longrightarrow> even n \<Longrightarrow> rhe x = n"
proof -
  assume x: "x = of_int n + 1 / 2" and n: "even n"
  have f: "\<lfloor>x\<rfloor> = n" unfolding x by (simp add: floor_eq_iff)
  show ?thesis unfolding rhe_def Let_def f using n by (simp add: x)
qed

lemma rhe_tie_up: "x = of_int n - 1 / 2 \<Longrightarrow> even n \<Longrightarrow> rhe x = n"
proof -
  assume x: "x = of_int n - 1 / 2" and n: "even n"
  have f: "\<lfloor>x\<rfloor> = n - 1" unfolding x by (simp add: floor_eq_iff)
  show ?thesis unfolding rhe_def Let_def f using n by (simp add: x)
qed

lemma rnd_cert_rhe:
  assumes q: "0 < q" and e: "- 1074 \<le> e" and lo: "2 powi (e + 52) \<le> q"
    and hi: "q < 2 powi (e + 53)" and rh: "rhe (q / 2 powi e) = m"
  shows "rnd q = of_int m * 2 powi e"
proof -
  have "e + 52 + 1 = e + 53" by simp
  then have "q < 2 powi (e + 52 + 1)" using hi by (simp only:)
  then have "ilog2 q = e + 52" using q lo by (intro ilog2_unique)
  then have ex: "expo q = e" using q e by (simp add: expo_def)
  show ?thesis by (simp only: rnd_pos[OF q] ex rh)
qed

lemma rnd_cert:
  assumes "0 < q" and "- 1074 \<le> e" and "2 powi (e + 52) \<le> q" and "q < 2 powi (e + 53)"
    and "\<bar>q / 2 powi e - of_int m\<bar> < 1 / 2"
  shows "rnd q = of_int m * 2 powi e"
  using assms(1-4) rhe_eqI[OF assms(5)] by (rule rnd_cert_rhe)

lemma rnd_cert_down:
  assumes "0 < q" and "- 1074 \<le> e" and "2 powi (e + 52) \<le> q" and "q < 2 powi (e + 53)"
    and "q / 2 powi e = of_int m + 1 / 2" and "even m"
  shows "rnd q = of_int m * 2 powi e"
  using assms(1-4) rhe_tie_down[OF assms(5,6)] by (rule rnd_cert_rhe)

lemma rnd_cert_up:
  assumes "0 < q" and "- 1074 \<le> e" and "2 powi (e + 52) \<le> q" and "q < 2 powi (e + 53)"
    and "q / 2 powi e = of_int m - 1 / 2" and "even m"
  shows "rnd q = of_int m * 2 powi e"
  using assms(1-4) rhe_tie_up[OF assms(5,6)] by (rule rnd_cert_rhe)

lemma rnd_exact: "is_rep q \<Longrightarrow> rnd q = q"
proof -
  assume r: "is_rep q"
  then obtain s m e where "round_f64 q = Finite s m e"
    using round_f64_rep(1)[OF r] by (cases "round_f64 q") auto
  then show ?thesis using round_f64_val[of q s m e] round_f64_rep(2)[OF r] by simp
qed

lemma is_rep_pow2: "- 1074 \<le> k \<Longrightarrow> k \<le> 971 \<Longrightarrow> is_rep (2 powi k)"
  unfolding is_rep_def by (rule exI[of _ 1], rule exI[of _ k]) simp

lemma is_rep_minus: "is_rep q \<Longrightarrow> is_rep (- q)"
  unfolding is_rep_def
  by (elim exE, rule_tac x="- m" in exI, rule_tac x=e in exI) simp

lemma rnd_abs_le:
  assumes "\<bar>q\<bar> \<le> 2 powi k" "- 1074 \<le> k" "k \<le> 971"
  shows "\<bar>rnd q\<bar> \<le> 2 powi k"
proof -
  have p: "rnd (2 powi k) = 2 powi k" using assms by (intro rnd_exact is_rep_pow2)
  have "rnd q \<le> rnd (2 powi k)" using assms by (intro rnd_mono) simp
  moreover have "rnd (- (2 powi k)) \<le> rnd q" using assms by (intro rnd_mono) simp
  ultimately show ?thesis using p by (simp add: rnd_minus abs_le_iff)
qed

lemma rnd_error_le:
  assumes "\<bar>q\<bar> \<le> 2 powi k" "- 1021 \<le> k" "k \<le> 971"
  shows "\<bar>rnd q - q\<bar> \<le> 2 powi (k - 54)"
proof (cases "\<bar>q\<bar> = 2 powi k")
  case True
  then have "q = 2 powi k \<or> q = - (2 powi k)" by (auto simp: abs_if split: if_splits)
  then have "is_rep q" using assms is_rep_pow2[of k] is_rep_minus[of "2 powi k"] by auto
  then show ?thesis by (simp add: rnd_exact)
next
  case False
  show ?thesis
  proof (cases "q = 0")
    case True then show ?thesis by simp
  next
    case q0: False
    have "\<bar>q\<bar> < 2 powi k" using False assms by simp
    then have "expo q \<le> k - 53" using q0 assms by (intro expo_le)
    then have "(2::rat) powi expo q \<le> 2 powi (k - 53)" by (rule pow2_mono)
    moreover have "(2::rat) powi (k - 53) / 2 = 2 powi (k - 54)"
    proof -
      have "(2::rat) powi (k - 53) = 2 powi (k - 54 + 1)" by simp
      also have "\<dots> = 2 powi (k - 54) * 2" by (simp only: pow2_add) simp
      finally show ?thesis by simp
    qed
    ultimately show ?thesis using rnd_error[of q] by linarith
  qed
qed

lemma lt_pow2_1023: "\<bar>q\<bar> \<le> 2 powi k \<Longrightarrow> k < 1023 \<Longrightarrow> \<bar>q :: rat\<bar> < 2 powi 1023"
proof -
  assume a: "\<bar>q\<bar> \<le> 2 powi k" and k: "k < 1023"
  have "(2::rat) powi k < 2 powi 1023" using k by (intro power_int_strict_increasing) auto
  then show ?thesis using a by linarith
qed

lemma f64_julian_unix: "f64_const julian_unix = Finite False 5241121747763200 (- 31)"
  unfolding f64_const_def julian_unix_def by (rule round_f64_eq) simp_all

lemma f64_day_nanoseconds: "f64_of_int day_nanoseconds = Finite False 5529600000000000 (- 6)"
  unfolding f64_of_int_def day_nanoseconds_def day_seconds_def by (rule round_f64_eq) simp_all

lemma f64_day_seconds: "f64_of_int day_seconds = Finite False 5937362789990400 (- 36)"
  unfolding f64_of_int_def day_seconds_def by (rule round_f64_eq) simp_all

lemma f64_one: "f64_of_int 1 = Finite False 4503599627370496 (- 52)"
  unfolding f64_of_int_def by (rule round_f64_eq) simp_all

lemma f64_epoch_j2000: "f64_of_int epoch_j2000 = Finite False 5264652799836160 (- 31)"
  unfolding f64_of_int_def epoch_j2000_def by (rule round_f64_eq) simp_all

lemma f64_days_p_century: "f64_of_int days_p_century = Finite False 5019957775564800 (- 37)"
  unfolding f64_of_int_def days_p_century_def by (rule round_f64_eq) simp_all

lemma wrap64_id: "in_int64 n \<Longrightarrow> wrap64 n = n"
  unfolding in_int64_def wrap64_def by simp

lemma UnixNano_0: "Time_UnixNano 0 = 0" and UnixNano_1: "Time_UnixNano 1 = 1"
  by (simp_all add: Time_UnixNano_def wrap64_def)

lemma f64_zero: "f64_of_int 0 = Finite False 0 (- 1074)"
  by (simp add: f64_of_int_def round_f64_def)

lemma valof_julian_unix: "valof (Finite False 5241121747763200 (- 31)) = 24405875 / 10"
  by simp

lemma valof_day_nanoseconds: "valof (Finite False 5529600000000000 (- 6)) = 86400000000000"
  by simp

lemma valof_day_seconds: "valof (Finite False 5937362789990400 (- 36)) = 86400"
  by simp

lemma Time_0: "Time 0 = Finite False 5241121747763200 (- 31)"
proof -
  have "Time 0 = round_f64 (valof (Finite False 5241121747763200 (- 31)))"
    unfolding Time_def UnixNano_0 f64_zero f64_day_nanoseconds f64_julian_unix
    by (simp add: Let_def)
  also have "\<dots> = Finite False 5241121747763200 (- 31)"
    by (rule round_f64_valof) simp_all
  finally show ?thesis .
qed

lemma Time_1: "Time 1 = Finite False 5241121747763200 (- 31)"
proof -
  have d: "f64_div (Finite False 4503599627370496 (- 52)) (Finite False 5529600000000000 (- 6))
      = Finite False 7335940973542994 (- 99)"
  proof -
    have "round_f64 (1 / 86400000000000) = Finite False 7335940973542994 (- 99)"
      by (rule round_f64_certificate) simp_all
    then show ?thesis by simp
  qed
  have s: "round_f64 (valof (Finite False 7335940973542994 (- 99)) + valof (Finite False 5241121747763200 (- 31)))
     = Finite False 5241121747763200 (- 31)"
    by (rule round_f64_certificate) simp_all
  have nz: "valof (Finite False 7335940973542994 (- 99)) + valof (Finite False 5241121747763200 (- 31)) \<noteq> 0"
    by simp
  show ?thesis
    unfolding Time_def UnixNano_1 f64_one f64_day_nanoseconds f64_julian_unix d
    using s nz by (simp add: Let_def del: valof.simps)
qed

section \<open>Rounding is to the nearest \<open>float64\<close>, ties to even, and stays in the format\<close>

lemma wf_round_f64: "wf_f64 (round_f64 q)"
proof (cases "q = 0")
  case True
  then show ?thesis by (simp add: round_f64_def)
next
  case False
  then have a: "0 < \<bar>q\<bar>" by simp
  define m where "m = rhe (\<bar>q\<bar> / 2 powi expo q)"
  have m0: "0 \<le> m" unfolding m_def using a by (intro rhe_nonneg) simp
  have m1: "m \<le> 2 ^ 53" unfolding m_def using rhe_scaled_le[OF a] by simp
  have m2: "- 1074 < expo q \<longrightarrow> 2 ^ 52 \<le> m"
    unfolding m_def using rhe_scaled_ge[OF a] by simp
  have e: "- 1074 \<le> expo q" by (rule expo_ge)
  show ?thesis
    unfolding round_f64_alt[OF False] m_def[symmetric] using m0 m1 m2 e by auto
qed

lemma wf_f64_add: "wf_f64 (f64_add x y)"
  by (cases x; cases y) (simp_all add: Let_def wf_round_f64 del: valof.simps)

lemma wf_f64_mul: "wf_f64 (f64_mul x y)"
  by (cases x; cases y) (simp_all add: Let_def wf_round_f64 del: valof.simps)

lemma wf_f64_div: "wf_f64 (f64_div x y)"
  by (cases x; cases y) (simp_all add: Let_def wf_round_f64 del: valof.simps)

lemma wf_f64_sub: "wf_f64 (f64_sub x y)"
  unfolding f64_sub_def by (rule wf_f64_add)

lemma wf_math_Mod: "wf_f64 x \<Longrightarrow> wf_f64 (math_Mod x y)"
  by (cases x; cases y) (simp_all add: Let_def wf_round_f64 del: valof.simps)

lemma wf_f64_of_int: "wf_f64 (f64_of_int n)"
  unfolding f64_of_int_def by (rule wf_round_f64)

lemma wf_Time: "wf_f64 (Time t)"
  unfolding Time_def by (rule wf_f64_add)

lemma wf_Date_Century: "wf_f64 (Date_Century jd)"
  unfolding Date_Century_def by (rule wf_f64_div)

lemma wf_Date_Time: "wf_f64 jd \<Longrightarrow> wf_f64 (Date_Time jd)"
  unfolding Date_Time_def by (rule wf_math_Mod)

lemma rhe_nearest: "\<bar>of_int (rhe x) - x\<bar> \<le> \<bar>of_int n - x\<bar>"
proof (cases "n = rhe x")
  case True
  then show ?thesis by simp
next
  case False
  then have "1 \<le> \<bar>n - rhe x\<bar>" by simp
  then have "(of_int 1 :: rat) \<le> of_int \<bar>n - rhe x\<bar>" by (simp only: of_int_le_iff)
  then have "1 \<le> \<bar>(of_int n :: rat) - of_int (rhe x)\<bar>" by simp
  then show ?thesis using rhe_bounds[of x] by linarith
qed

lemma rhe_tie_even: "x - of_int \<lfloor>x\<rfloor> = 1 / 2 \<Longrightarrow> even (rhe x)"
  by (simp add: rhe_def Let_def)

lemma rep_on_grid:
  assumes r: "is_rep r" and big: "- 1074 < e \<longrightarrow> 2 ^ 52 * 2 powi e \<le> \<bar>r\<bar>" and e: "- 1074 \<le> e"
  shows "\<exists>n. r = of_int n * 2 powi e"
proof -
  obtain m k where rm: "r = of_int m * 2 powi k" and m: "\<bar>m\<bar> < 2 ^ 53" and k: "- 1074 \<le> k"
    using r unfolding is_rep_def by auto
  have ek: "e \<le> k"
  proof (cases "- 1074 < e")
    case False
    then show ?thesis using e k by simp
  next
    case True
    have "(of_int \<bar>m\<bar> :: rat) < of_int (2 ^ 53)" using m by (simp only: of_int_less_iff)
    then have "of_int \<bar>m\<bar> * 2 powi k < (2::rat) ^ 53 * 2 powi k" by simp
    moreover have "\<bar>r\<bar> = of_int \<bar>m\<bar> * 2 powi k" by (simp add: rm abs_mult)
    moreover have "2 ^ 52 * 2 powi e \<le> \<bar>r\<bar>" using big True by blast
    ultimately have "(2::rat) ^ 52 * 2 powi e < 2 ^ 53 * 2 powi k" by linarith
    then have "(2::rat) powi (e + 52) < 2 powi (k + 53)" by (simp add: pow2_add mult.commute)
    then have "e + 52 < k + 53" by (rule pow2_less_imp)
    then show ?thesis by simp
  qed
  define d where "d = nat (k - e)"
  have kd: "k = e + int d" using ek by (simp add: d_def)
  have "r = of_int (m * 2 ^ d) * 2 powi e" by (simp add: rm, subst kd, simp add: pow2_add)
  then show ?thesis by blast
qed

lemma rnd_nearest_pos:
  assumes q: "0 < q" and r: "is_rep r"
  shows "\<bar>rnd q - q\<bar> \<le> \<bar>r - q\<bar>"
proof -
  define g :: rat where "g = 2 powi expo q"
  define x where "x = q / g"
  have g: "0 < g" by (simp add: g_def)
  have qx: "q = x * g" using g by (simp add: x_def)
  have rq: "rnd q = of_int (rhe x) * g" by (simp add: rnd_pos[OF q] g_def x_def)
  have scale: "\<bar>c * g - q\<bar> = \<bar>c - x\<bar> * g" for c
  proof -
    have "(c - x) * g = c * g - x * g" by (rule left_diff_distrib)
    also have "\<dots> = c * g - q" using qx by simp
    finally have "\<bar>c * g - q\<bar> = \<bar>(c - x) * g\<bar>" by simp
    then show ?thesis using g by (simp only: abs_mult abs_of_pos)
  qed
  have grid: "\<bar>rnd q - q\<bar> \<le> \<bar>of_int n * g - q\<bar>" for n
  proof -
    have "\<bar>rnd q - q\<bar> = \<bar>of_int (rhe x) - x\<bar> * g" by (simp only: rq scale)
    also have "\<dots> \<le> \<bar>of_int n - x\<bar> * g" using rhe_nearest[of x n] g by (intro mult_right_mono) auto
    also have "\<dots> = \<bar>of_int n * g - q\<bar>" by (simp only: scale)
    finally show ?thesis .
  qed
  define lo where "lo = of_int \<lfloor>x\<rfloor> * g"
  define hi where "hi = of_int (\<lfloor>x\<rfloor> + 1) * g"
  have lo_le: "lo \<le> q" unfolding lo_def qx using g by (intro mult_right_mono) auto
  have hi_gt: "q < hi" unfolding hi_def qx using g by (intro mult_strict_right_mono) (auto, linarith)
  have x0: "0 \<le> x" using q g by (simp add: x_def)
  have lo0: "0 \<le> lo" unfolding lo_def using g x0 by simp
  consider "r \<le> lo" | "hi \<le> r" | "lo < r" "r < hi" by linarith
  then show ?thesis
  proof cases
    case 1
    have "\<bar>rnd q - q\<bar> \<le> \<bar>lo - q\<bar>" unfolding lo_def by (rule grid)
    then show ?thesis using 1 lo_le by linarith
  next
    case 2
    have "\<bar>rnd q - q\<bar> \<le> \<bar>hi - q\<bar>" unfolding hi_def by (rule grid)
    then show ?thesis using 2 hi_gt by linarith
  next
    case 3
    have big: "- 1074 < expo q \<longrightarrow> 2 ^ 52 * 2 powi expo q \<le> \<bar>r\<bar>"
    proof
      assume ex: "- 1074 < expo q"
      have "2 ^ 52 \<le> x" unfolding x_def g_def using scaled_ge[OF q ex] .
      then have "(of_int (2 ^ 52) :: rat) \<le> x" by simp
      then have "2 ^ 52 \<le> \<lfloor>x\<rfloor>" by (simp only: le_floor_iff)
      then have "(of_int (2 ^ 52) :: rat) \<le> of_int \<lfloor>x\<rfloor>" by (simp only: of_int_le_iff)
      then have "2 ^ 52 * g \<le> lo" unfolding lo_def using g by (intro mult_right_mono) auto
      then show "2 ^ 52 * 2 powi expo q \<le> \<bar>r\<bar>" using 3(1) by (simp add: g_def)
    qed
    obtain n where n: "r = of_int n * g"
      using rep_on_grid[OF r big expo_ge] unfolding g_def by blast
    have "of_int \<lfloor>x\<rfloor> * g < of_int n * g" using 3(1) by (simp only: lo_def n)
    then have "(of_int \<lfloor>x\<rfloor> :: rat) < of_int n" using g by simp
    then have a: "\<lfloor>x\<rfloor> < n" by (simp only: of_int_less_iff)
    have "of_int n * g < of_int (\<lfloor>x\<rfloor> + 1) * g" using 3(2) by (simp only: hi_def n)
    then have "(of_int n :: rat) < of_int (\<lfloor>x\<rfloor> + 1)" using g by simp
    then have "n < \<lfloor>x\<rfloor> + 1" by (simp only: of_int_less_iff)
    then show ?thesis using a by simp
  qed
qed

lemma rnd_nearest:
  assumes "is_rep r"
  shows "\<bar>rnd q - q\<bar> \<le> \<bar>r - q\<bar>"
proof -
  consider "0 < q" | "q = 0" | "q < 0" by linarith
  then show ?thesis
  proof cases
    case 1
    then show ?thesis using assms by (rule rnd_nearest_pos)
  next
    case 2
    then show ?thesis by simp
  next
    case 3
    then have "\<bar>rnd (- q) - (- q)\<bar> \<le> \<bar>- r - (- q)\<bar>"
      using is_rep_minus[OF assms] by (intro rnd_nearest_pos) simp_all
    then show ?thesis by (simp add: rnd_minus abs_minus_commute)
  qed
qed

lemma round_f64_nearest:
  assumes "round_f64 q = Finite s m e" and "wf_f64 (Finite t n k)"
  shows "\<bar>valof (Finite s m e) - q\<bar> \<le> \<bar>valof (Finite t n k) - q\<bar>"
  unfolding round_f64_val[OF assms(1)] using is_rep_valof[OF assms(2)] by (rule rnd_nearest)

section \<open>The value of \<open>Time\<close>\<close>

lemma f64_lt_finite: "is_finite x \<Longrightarrow> is_finite y \<Longrightarrow> f64_lt x y = (valof x < valof y)"
  by (cases x; cases y) (simp_all del: valof.simps)

lemma f64_eq_finite: "is_finite x \<Longrightarrow> is_finite y \<Longrightarrow> f64_eq x y = (valof x = valof y)"
  by (cases x; cases y) (simp_all del: valof.simps)

lemma f64_le_finite: "is_finite x \<Longrightarrow> is_finite y \<Longrightarrow> f64_le x y = (valof x \<le> valof y)"
  by (auto simp: f64_le_def f64_lt_finite f64_eq_finite)

lemma in_int64_abs: "in_int64 n \<Longrightarrow> \<bar>of_int n :: rat\<bar> \<le> 2 powi 63"
proof -
  assume "in_int64 n"
  then have "\<bar>n\<bar> \<le> 2 ^ 63" unfolding in_int64_def by linarith
  then have "(of_int \<bar>n\<bar> :: rat) \<le> of_int (2 ^ 63)" by (simp only: of_int_le_iff)
  then show ?thesis by simp
qed

lemma Time_val:
  assumes "in_int64 n"
  shows "is_finite (Time n)"
    and "valof (Time n) = rnd (rnd (rnd (of_int n) / 86400000000000) + 24405875 / 10)"
    and "\<bar>rnd (of_int n)\<bar> \<le> 2 powi 63"
    and "\<bar>rnd (rnd (of_int n) / 86400000000000)\<bar> \<le> 2 powi 17"
proof -
  define a0 where "a0 = rnd (of_int n)"
  define a1 where "a1 = rnd (a0 / 86400000000000)"
  have n: "\<bar>of_int n :: rat\<bar> \<le> 2 powi 63" using assms by (rule in_int64_abs)
  have f0: "is_finite (f64_of_int n)" and v0: "valof (f64_of_int n) = a0"
    unfolding a0_def using f64_of_int_val[OF lt_pow2_1023[OF n]] by simp_all
  show b0: "\<bar>rnd (of_int n)\<bar> \<le> 2 powi 63" using n by (intro rnd_abs_le) simp_all
  then have "\<bar>a0\<bar> \<le> 9223372036854775808" by (simp add: a0_def)
  then have x1: "\<bar>a0 / 86400000000000\<bar> \<le> 2 powi 17" by simp
  have fd: "is_finite (Finite False 5529600000000000 (- 6))" by simp
  have q1: "valof (f64_of_int n) / valof (Finite False 5529600000000000 (- 6)) = a0 / 86400000000000"
    by (simp only: v0 valof_day_nanoseconds)
  have nz: "valof (Finite False 5529600000000000 (- 6)) \<noteq> 0" by simp
  have f1: "is_finite (f64_div (f64_of_int n) (Finite False 5529600000000000 (- 6)))"
    and v1: "valof (f64_div (f64_of_int n) (Finite False 5529600000000000 (- 6))) = a1"
    unfolding a1_def using f64_div_val[OF f0 fd nz] lt_pow2_1023[OF x1] by (simp_all only: q1)
  have b1: "\<bar>a1\<bar> \<le> 2 powi 17" unfolding a1_def using x1 by (intro rnd_abs_le) simp_all
  then show "\<bar>rnd (rnd (of_int n) / 86400000000000)\<bar> \<le> 2 powi 17" by (simp only: a1_def a0_def)
  have "\<bar>a1\<bar> \<le> 131072" using b1 by simp
  then have x2: "\<bar>a1 + 24405875 / 10\<bar> \<le> 2 powi 22" by simp
  have fj: "is_finite (Finite False 5241121747763200 (- 31))" by simp
  have q2: "valof (f64_div (f64_of_int n) (Finite False 5529600000000000 (- 6)))
      + valof (Finite False 5241121747763200 (- 31)) = a1 + 24405875 / 10"
    by (simp only: v1 valof_julian_unix)
  have t: "Time n = f64_add (f64_div (f64_of_int n) (Finite False 5529600000000000 (- 6)))
      (Finite False 5241121747763200 (- 31))"
    by (simp only: Time_def Time_UnixNano_def wrap64_id[OF assms] f64_day_nanoseconds f64_julian_unix)
  show "is_finite (Time n)"
    unfolding t using f64_add_val(1)[OF f1 fj] lt_pow2_1023[OF x2] by (simp only: q2)
  show "valof (Time n) = rnd (rnd (rnd (of_int n) / 86400000000000) + 24405875 / 10)"
    unfolding t using f64_add_val(2)[OF f1 fj] lt_pow2_1023[OF x2]
    by (simp only: q2 a1_def a0_def)
qed

lemma Time_monotone:
  assumes "in_int64 a" "in_int64 b" "a \<le> b"
  shows "f64_le (Time a) (Time b)"
proof -
  have "(of_int a :: rat) \<le> of_int b" using assms(3) by simp
  then have "rnd (of_int a) \<le> rnd (of_int b)" by (rule rnd_mono)
  then have "rnd (of_int a) / 86400000000000 \<le> rnd (of_int b) / 86400000000000"
    by (simp add: divide_right_mono)
  then have "rnd (rnd (of_int a) / 86400000000000) \<le> rnd (rnd (of_int b) / 86400000000000)"
    by (rule rnd_mono)
  then have "rnd (rnd (of_int a) / 86400000000000) + 24405875 / 10
     \<le> rnd (rnd (of_int b) / 86400000000000) + 24405875 / 10" by simp
  then have "valof (Time a) \<le> valof (Time b)"
    unfolding Time_val(2)[OF assms(1)] Time_val(2)[OF assms(2)] by (rule rnd_mono)
  then show ?thesis
    using Time_val(1)[OF assms(1)] Time_val(1)[OF assms(2)] by (simp only: f64_le_finite)
qed

lemma Time_value_eq:
  assumes "in_int64 n"
  shows "is_finite (Time n)" and "valof (Time n) = Time_value n"
  using Time_val(1,2)[OF assms] by (simp_all add: Time_value_def)

lemma Time_value_near:
  assumes i: "in_int64 n"
  shows "\<bar>86400000000000 * Time_value n - 210866760000000000000 - of_int n\<bar>
           \<le> 512 + 86400000000000 / 137438953472 + 86400000000000 / 4294967296"
proof -
  define a0 where "a0 = rnd (of_int n)"
  define u where "u = a0 / 86400000000000"
  define a1 where "a1 = rnd u"
  define a2 where "a2 = rnd (a1 + 24405875 / 10)"
  have a0u: "a0 = 86400000000000 * u" by (simp add: u_def)
  have T: "Time_value n = a2" by (simp add: Time_value_def a2_def a1_def u_def a0_def)
  note tv = Time_val(3,4)[OF i, folded a0_def, folded u_def, folded a1_def]
  have "\<bar>rnd (of_int n) - of_int n\<bar> \<le> 2 powi (63 - 54)"
    using in_int64_abs[OF i] by (intro rnd_error_le) simp_all
  then have d0: "\<bar>86400000000000 * u - of_int n\<bar> \<le> 512" by (simp add: a0_def[symmetric] a0u)
  have "\<bar>a0\<bar> \<le> 9223372036854775808" using tv(1) by simp
  then have x1: "\<bar>u\<bar> \<le> 2 powi 17" by (simp add: u_def)
  have "\<bar>rnd u - u\<bar> \<le> 2 powi (17 - 54)" using x1 by (intro rnd_error_le) simp_all
  then have d1: "\<bar>a1 - u\<bar> \<le> 1 / 137438953472" by (simp add: a1_def)
  have "\<bar>a1\<bar> \<le> 131072" using tv(2) by simp
  then have x2: "\<bar>a1 + 24405875 / 10\<bar> \<le> 2 powi 22" by simp
  have "\<bar>rnd (a1 + 24405875 / 10) - (a1 + 24405875 / 10)\<bar> \<le> 2 powi (22 - 54)"
    using x2 by (intro rnd_error_le) simp_all
  then have d2: "\<bar>a2 - (a1 + 24405875 / 10)\<bar> \<le> 1 / 4294967296" by (simp add: a2_def)
  show ?thesis unfolding T using d0 d1 d2 by linarith
qed

lemma Time_strict:
  assumes ia: "in_int64 a" and ib: "in_int64 b" and gap: "a + 42515 \<le> b"
  shows "f64_lt (Time a) (Time b)"
proof -
  have "(of_int (a + 42515) :: rat) \<le> of_int b" using gap by (simp only: of_int_le_iff)
  then have g: "(of_int a :: rat) + 42515 \<le> of_int b" by simp
  have "Time_value a < Time_value b"
    using Time_value_near[OF ia] Time_value_near[OF ib] g by linarith
  then show ?thesis
    using Time_value_eq[OF ia] Time_value_eq[OF ib] by (simp only: f64_lt_finite)
qed

section \<open>From an instant to a Julian date and back\<close>

lemma trunc_error: "\<bar>q - of_int (trunc q)\<bar> < 1"
proof (cases "0 \<le> q")
  case True
  then show ?thesis using trunc_nonneg[of q] by simp
next
  case False
  then have "q < 0" by simp
  then show ?thesis using trunc_neg[of q] by simp
qed

lemma int64_of_f64_finite:
  assumes "is_finite x" "in_int64 (trunc (valof x))"
  shows "int64_of_f64 x = Some (trunc (valof x))"
proof -
  obtain s m e where x: "x = Finite s m e" using assms(1) by (cases x) auto
  show ?thesis using assms(2) unfolding x by (simp add: Let_def del: valof.simps)
qed

lemma UnixNano_chain:
  assumes i: "in_int64 n"
  shows "Date_UnixNano (Time n) =
      (if in_int64 (trunc (roundtrip_value n)) then Some (trunc (roundtrip_value n)) else None)"
    and "\<bar>roundtrip_value n - of_int n\<bar> \<le> 24563"
proof -
  define a0 where "a0 = rnd (of_int n)"
  define a1 where "a1 = rnd (a0 / 86400000000000)"
  define a2 where "a2 = rnd (a1 + 24405875 / 10)"
  define a3 where "a3 = rnd (a2 - 24405875 / 10)"
  define a4 where "a4 = rnd (a3 * 86400000000000)"
  have rv: "roundtrip_value n = a4"
    by (simp add: roundtrip_value_def Time_value_def a4_def a3_def a2_def a1_def a0_def)
  note tv = Time_val[OF i, folded a0_def, folded a1_def, folded a2_def]
  have fT: "is_finite (Time n)" and vT: "valof (Time n) = a2" using tv by simp_all
  have b0: "\<bar>a0\<bar> \<le> 2 powi 63" and b1: "\<bar>a1\<bar> \<le> 2 powi 17" using tv by simp_all
  have "\<bar>rnd (of_int n) - of_int n\<bar> \<le> 2 powi (63 - 54)"
    using in_int64_abs[OF i] by (intro rnd_error_le) simp_all
  then have d0: "\<bar>a0 - of_int n\<bar> \<le> 512" by (simp add: a0_def)
  have "\<bar>a0\<bar> \<le> 9223372036854775808" using b0 by simp
  then have x1: "\<bar>a0 / 86400000000000\<bar> \<le> 2 powi 17" by simp
  have "\<bar>rnd (a0 / 86400000000000) - a0 / 86400000000000\<bar> \<le> 2 powi (17 - 54)"
    using x1 by (intro rnd_error_le) simp_all
  then have d1: "\<bar>a1 - a0 / 86400000000000\<bar> \<le> 1 / 137438953472" by (simp add: a1_def)
  have b1': "\<bar>a1\<bar> \<le> 131072" using b1 by simp
  then have x2: "\<bar>a1 + 24405875 / 10\<bar> \<le> 2 powi 22" by simp
  have "\<bar>rnd (a1 + 24405875 / 10) - (a1 + 24405875 / 10)\<bar> \<le> 2 powi (22 - 54)"
    using x2 by (intro rnd_error_le) simp_all
  then have d2: "\<bar>a2 - (a1 + 24405875 / 10)\<bar> \<le> 1 / 4294967296" by (simp add: a2_def)
  have "\<bar>a2 - 24405875 / 10\<bar> \<le> 262144" using d2 b1' by linarith
  then have x3: "\<bar>a2 - 24405875 / 10\<bar> \<le> 2 powi 18" by simp
  have "\<bar>rnd (a2 - 24405875 / 10) - (a2 - 24405875 / 10)\<bar> \<le> 2 powi (18 - 54)"
    using x3 by (intro rnd_error_le) simp_all
  then have d3: "\<bar>a3 - (a2 - 24405875 / 10)\<bar> \<le> 1 / 68719476736" by (simp add: a3_def)
  have "\<bar>a3\<bar> \<le> 2 powi 18" unfolding a3_def using x3 by (intro rnd_abs_le) simp_all
  then have b3: "\<bar>a3\<bar> \<le> 262144" by simp
  then have "\<bar>a3 * 86400000000000\<bar> \<le> 36893488147419103232" by (simp add: abs_mult)
  then have x4: "\<bar>a3 * 86400000000000\<bar> \<le> 2 powi 65" by simp
  have "\<bar>rnd (a3 * 86400000000000) - a3 * 86400000000000\<bar> \<le> 2 powi (65 - 54)"
    using x4 by (intro rnd_error_le) simp_all
  then have d4: "\<bar>a4 - a3 * 86400000000000\<bar> \<le> 2048" by (simp add: a4_def)
  define u where "u = a0 / 86400000000000"
  have a0u: "a0 = 86400000000000 * u" by (simp add: u_def)
  have d0': "\<bar>86400000000000 * u - of_int n\<bar> \<le> 512" using d0 by (simp only: a0u)
  have d1': "\<bar>a1 - u\<bar> \<le> 1 / 137438953472" using d1 by (simp only: u_def)
  have tot: "\<bar>a4 - of_int n\<bar> \<le> 24563"
    using d0' d1' d2 d3 d4 by linarith
  then show "\<bar>roundtrip_value n - of_int n\<bar> \<le> 24563" by (simp only: rv)
  have fj: "is_finite (Finite False 5241121747763200 (- 31))" by simp
  have fd: "is_finite (Finite False 5529600000000000 (- 6))" by simp
  have q3: "valof (Time n) - valof (Finite False 5241121747763200 (- 31)) = a2 - 24405875 / 10"
    by (simp only: vT valof_julian_unix)
  have f3: "is_finite (f64_sub (Time n) (Finite False 5241121747763200 (- 31)))"
    and v3: "valof (f64_sub (Time n) (Finite False 5241121747763200 (- 31))) = a3"
    unfolding a3_def using f64_sub_val[OF fT fj] lt_pow2_1023[OF x3] by (simp_all only: q3)
  define p where "p = f64_mul (f64_sub (Time n) (Finite False 5241121747763200 (- 31)))
     (Finite False 5529600000000000 (- 6))"
  have q4: "valof (f64_sub (Time n) (Finite False 5241121747763200 (- 31)))
     * valof (Finite False 5529600000000000 (- 6)) = a3 * 86400000000000"
    by (simp only: v3 valof_day_nanoseconds)
  have f4: "is_finite p" and v4: "valof p = a4"
    unfolding a4_def p_def using f64_mul_val[OF f3 fd] lt_pow2_1023[OF x4] by (simp_all only: q4)
  obtain s m e where pe: "p = Finite s m e" using f4 by (cases p) auto
  have "int64_of_f64 p = (if in_int64 (trunc a4) then Some (trunc a4) else None)"
    using v4 unfolding pe by (simp add: Let_def del: valof.simps)
  then show "Date_UnixNano (Time n) =
      (if in_int64 (trunc (roundtrip_value n)) then Some (trunc (roundtrip_value n)) else None)"
    by (simp only: Date_UnixNano_def f64_julian_unix f64_day_nanoseconds p_def rv)
qed

lemma roundtrip_value_mono: "a \<le> b \<Longrightarrow> roundtrip_value a \<le> roundtrip_value b"
proof -
  assume "a \<le> b"
  then have "(of_int a :: rat) \<le> of_int b" by simp
  then have "rnd (of_int a) \<le> rnd (of_int b)" by (rule rnd_mono)
  then have "rnd (of_int a) / 86400000000000 \<le> rnd (of_int b) / 86400000000000"
    by (simp add: divide_right_mono)
  then have "rnd (rnd (of_int a) / 86400000000000) \<le> rnd (rnd (of_int b) / 86400000000000)"
    by (rule rnd_mono)
  then have "rnd (rnd (of_int a) / 86400000000000) + 24405875 / 10
     \<le> rnd (rnd (of_int b) / 86400000000000) + 24405875 / 10" by simp
  then have "Time_value a \<le> Time_value b" unfolding Time_value_def by (rule rnd_mono)
  then have "Time_value a - 24405875 / 10 \<le> Time_value b - 24405875 / 10" by simp
  then have "rnd (Time_value a - 24405875 / 10) \<le> rnd (Time_value b - 24405875 / 10)"
    by (rule rnd_mono)
  then have "rnd (Time_value a - 24405875 / 10) * 86400000000000
     \<le> rnd (Time_value b - 24405875 / 10) * 86400000000000" by simp
  then show ?thesis unfolding roundtrip_value_def by (rule rnd_mono)
qed

section \<open>The day fraction\<close>

lemma valof_one: "valof (Finite False 4503599627370496 (- 52)) = 1"
  by simp

lemma math_Mod_one:
  assumes "wf_f64 (Finite s m e)"
  shows "is_finite (math_Mod (Finite s m e) (Finite False 4503599627370496 (- 52)))"
    and "valof (math_Mod (Finite s m e) (Finite False 4503599627370496 (- 52)))
          = valof (Finite s m e) - of_int (trunc (valof (Finite s m e)))"
    and "valof (Finite s m e) = of_int (trunc (valof (Finite s m e))) \<Longrightarrow>
          math_Mod (Finite s m e) (Finite False 4503599627370496 (- 52)) = Finite s 0 (- 1074)"
proof -
  define v where "v = valof (Finite s m e)"
  define r where "r = v - of_int (trunc v)"
  have rep: "is_rep r" unfolding r_def v_def
    using is_rep_trunc_frac(2)[OF is_rep_valof[OF assms]] .
  have mm: "math_Mod (Finite s m e) (Finite False 4503599627370496 (- 52))
      = (if r = 0 then Finite s 0 (- 1074) else round_f64 r)"
    unfolding math_Mod.simps Let_def valof_one v_def[symmetric]
    by (simp add: r_def)
  show "is_finite (math_Mod (Finite s m e) (Finite False 4503599627370496 (- 52)))"
    unfolding mm using round_f64_rep(1)[OF rep] by simp
  show "valof (math_Mod (Finite s m e) (Finite False 4503599627370496 (- 52)))
          = valof (Finite s m e) - of_int (trunc (valof (Finite s m e)))"
    unfolding mm v_def[symmetric] r_def[symmetric] using round_f64_rep(2)[OF rep] by simp
  show "math_Mod (Finite s m e) (Finite False 4503599627370496 (- 52)) = Finite s 0 (- 1074)"
    if "valof (Finite s m e) = of_int (trunc (valof (Finite s m e)))"
    unfolding mm using that by (simp add: r_def v_def)
qed

lemma Date_Time_val:
  assumes "wf_f64 jd" "is_finite jd"
  shows "is_finite (Date_Time jd)"
    and "valof (Date_Time jd) = valof jd - of_int (trunc (valof jd))"
proof -
  obtain s m e where jd: "jd = Finite s m e" using assms(2) by (cases jd) auto
  show "is_finite (Date_Time jd)"
    unfolding Date_Time_def f64_one jd using math_Mod_one(1) assms(1)[unfolded jd] by blast
  show "valof (Date_Time jd) = valof jd - of_int (trunc (valof jd))"
    unfolding Date_Time_def f64_one jd using math_Mod_one(2) assms(1)[unfolded jd] by blast
qed

lemma Date_Time_range:
  assumes "wf_f64 jd" "is_finite jd" "f64_le (f64_of_int 0) jd"
  shows "f64_le (f64_of_int 0) (Date_Time jd)" and "f64_lt (Date_Time jd) (f64_of_int 1)"
    and "valof (Date_Time jd) = valof jd - of_int \<lfloor>valof jd\<rfloor>"
proof -
  have z: "is_finite (f64_of_int 0)" "valof (f64_of_int 0) = 0" by (simp_all add: f64_zero)
  have o: "is_finite (f64_of_int 1)" "valof (f64_of_int 1) = 1" by (simp_all add: f64_one)
  have v: "0 \<le> valof jd" using assms(3) by (simp only: f64_le_finite[OF z(1) assms(2)] z(2))
  note dt = Date_Time_val[OF assms(1,2)]
  note tr = trunc_nonneg[OF v]
  show "f64_le (f64_of_int 0) (Date_Time jd)"
    using tr by (simp only: f64_le_finite[OF z(1) dt(1)] z(2) dt(2)) simp
  show "f64_lt (Date_Time jd) (f64_of_int 1)"
    using tr by (simp only: f64_lt_finite[OF dt(1) o(1)] o(2) dt(2)) simp
  show "valof (Date_Time jd) = valof jd - of_int \<lfloor>valof jd\<rfloor>"
    using v by (simp add: dt(2) trunc_def)
qed

lemma round_f64_minus: "q \<noteq> 0 \<Longrightarrow> round_f64 (- q) = f64_neg (round_f64 q)"
proof -
  assume q: "q \<noteq> 0"
  then have q': "- q \<noteq> 0" by simp
  have s: "(- q < 0) = (\<not> q < 0)" using q by auto
  show ?thesis
    unfolding round_f64_alt[OF q] round_f64_alt[OF q'] expo_minus abs_minus_cancel s by simp
qed

lemma minus_half: "round_f64 (- (1 / 2)) = Finite True 4503599627370496 (- 53)"
  by (rule round_f64_eq) simp_all

lemma Date_Time_minus_half:
  "Date_Time (Finite True 4503599627370496 (- 53)) = Finite True 4503599627370496 (- 53)"
proof -
  have v: "valof (Finite True 4503599627370496 (- 53)) = - (1 / 2)" by simp
  have t: "trunc (- (1 / 2)) = 0" by (simp add: trunc_def ceiling_eq_iff)
  show ?thesis
    unfolding Date_Time_def f64_one math_Mod.simps Let_def valof_one v
    by (simp add: t minus_half del: valof.simps)
qed

section \<open>\<open>Unix\<close>, \<open>DayNumber\<close> and \<open>Century\<close>\<close>

lemma rnd_abs_le_rep:
  assumes "\<bar>q\<bar> \<le> b" "is_rep b"
  shows "\<bar>rnd q\<bar> \<le> b"
proof -
  have p: "rnd b = b" using assms(2) by (rule rnd_exact)
  have "rnd q \<le> rnd b" using assms by (intro rnd_mono) simp
  moreover have "rnd (- b) \<le> rnd q" using assms by (intro rnd_mono) simp
  ultimately show ?thesis using p by (simp add: rnd_minus abs_le_iff)
qed

lemma trunc_floor_ceiling: "trunc q = (if 0 \<le> q then \<lfloor>q\<rfloor> else \<lceil>q\<rceil>)"
  by (simp add: trunc_def)

lemma Date_Unix_val:
  assumes f: "is_finite jd" and b: "\<bar>valof jd\<bar> \<le> 2 ^ 45"
  shows "is_finite (f64_mul (f64_sub jd (f64_const julian_unix)) (f64_of_int day_seconds))"
    and "valof (f64_mul (f64_sub jd (f64_const julian_unix)) (f64_of_int day_seconds))
           = rnd (rnd (valof jd - 24405875 / 10) * 86400)"
    and "Date_Unix jd = Some (trunc (rnd (rnd (valof jd - 24405875 / 10) * 86400)))"
proof -
  define a3 where "a3 = rnd (valof jd - 24405875 / 10)"
  define a4 where "a4 = rnd (a3 * 86400)"
  have fj: "is_finite (Finite False 5241121747763200 (- 31))" by simp
  have fd: "is_finite (Finite False 5937362789990400 (- 36))" by simp
  have "\<bar>valof jd - 24405875 / 10\<bar> \<le> 70368744177664" using b by simp
  then have x3: "\<bar>valof jd - 24405875 / 10\<bar> \<le> 2 powi 46" by simp
  have q3: "valof jd - valof (Finite False 5241121747763200 (- 31)) = valof jd - 24405875 / 10"
    by (simp only: valof_julian_unix)
  have f3: "is_finite (f64_sub jd (Finite False 5241121747763200 (- 31)))"
    and v3: "valof (f64_sub jd (Finite False 5241121747763200 (- 31))) = a3"
    unfolding a3_def using f64_sub_val[OF f fj] lt_pow2_1023[OF x3] by (simp_all only: q3)
  have "\<bar>a3\<bar> \<le> 2 powi 46" unfolding a3_def using x3 by (intro rnd_abs_le) simp_all
  then have "\<bar>a3\<bar> \<le> 70368744177664" by simp
  then have x4': "\<bar>a3 * 86400\<bar> \<le> 6079859496950169600" by (simp add: abs_mult)
  then have x4: "\<bar>a3 * 86400\<bar> \<le> 2 powi 63" by simp
  have q4: "valof (f64_sub jd (Finite False 5241121747763200 (- 31)))
      * valof (Finite False 5937362789990400 (- 36)) = a3 * 86400"
    by (simp only: v3 valof_day_seconds)
  define p where "p = f64_mul (f64_sub jd (Finite False 5241121747763200 (- 31)))
     (Finite False 5937362789990400 (- 36))"
  have f4: "is_finite p" and v4: "valof p = a4"
    unfolding a4_def p_def using f64_mul_val[OF f3 fd] lt_pow2_1023[OF x4] by (simp_all only: q4)
  have pe: "f64_mul (f64_sub jd (f64_const julian_unix)) (f64_of_int day_seconds) = p"
    by (simp only: p_def f64_julian_unix f64_day_seconds)
  show "is_finite (f64_mul (f64_sub jd (f64_const julian_unix)) (f64_of_int day_seconds))"
    using f4 by (simp only: pe)
  show "valof (f64_mul (f64_sub jd (f64_const julian_unix)) (f64_of_int day_seconds))
           = rnd (rnd (valof jd - 24405875 / 10) * 86400)"
    using v4 by (simp only: pe a4_def a3_def)
  have "is_rep 6079859496950169600"
    unfolding is_rep_def by (rule exI[of _ 86400], rule exI[of _ 46]) simp
  then have "\<bar>a4\<bar> \<le> 6079859496950169600"
    unfolding a4_def using x4' by (intro rnd_abs_le_rep)
  then have "\<bar>of_int (trunc a4) :: rat\<bar> \<le> of_int 6079859496950169600"
    using trunc_abs_le[of a4] by simp
  then have "(of_int \<bar>trunc a4\<bar> :: rat) \<le> of_int 6079859496950169600" by (simp only: of_int_abs)
  then have "\<bar>trunc a4\<bar> \<le> 6079859496950169600" by (simp only: of_int_le_iff)
  then have "in_int64 (trunc a4)" unfolding in_int64_def by simp linarith
  then have "int64_of_f64 p = Some (trunc a4)"
    using int64_of_f64_finite[OF f4] by (simp add: v4)
  then show "Date_Unix jd = Some (trunc (rnd (rnd (valof jd - 24405875 / 10) * 86400)))"
    by (simp only: Date_Unix_def pe a4_def a3_def)
qed

lemma Date_Unix_before_epoch:
  "Date_Unix (Finite False 5241121747761152 (- 31)) = Some 0"
proof -
  have s: "f64_sub (Finite False 5241121747761152 (- 31)) (Finite False 5241121747763200 (- 31))
      = Finite True 4503599627370496 (- 72)"
  proof -
    have "round_f64 (- (1 / 1048576)) = Finite True 4503599627370496 (- 72)"
      by (rule round_f64_eq) simp_all
    then show ?thesis by (simp add: f64_sub_def Let_def)
  qed
  have m: "f64_mul (Finite True 4503599627370496 (- 72)) (Finite False 5937362789990400 (- 36))
      = Finite True 5937362789990400 (- 56)"
  proof -
    have "round_f64 (- (675 / 8192)) = Finite True 5937362789990400 (- 56)"
      by (rule round_f64_eq) simp_all
    then show ?thesis by (simp add: Let_def)
  qed
  have t: "trunc (- (675 / 8192)) = 0" by (simp add: trunc_def ceiling_eq_iff)
  have v: "valof (Finite True 5937362789990400 (- 56)) = - (675 / 8192)" by simp
  show ?thesis
    unfolding Date_Unix_def f64_julian_unix f64_day_seconds s m int64_of_f64.simps v t Let_def
    by (simp add: in_int64_def)
qed

lemma Date_DayNumber_val:
  assumes "is_finite jd" "in_int64 (trunc (valof jd))"
  shows "Date_DayNumber jd = Some (trunc (valof jd))"
  unfolding Date_DayNumber_def using assms by (rule int64_of_f64_finite)

lemma Date_DayNumber_minus_half:
  "Date_DayNumber (Finite True 4503599627370496 (- 53)) = Some 0"
proof -
  have v: "valof (Finite True 4503599627370496 (- 53)) = - (1 / 2)" by simp
  have t: "trunc (- (1 / 2)) = 0" by (simp add: trunc_def ceiling_eq_iff)
  show ?thesis
    unfolding Date_DayNumber_def int64_of_f64.simps v t Let_def by (simp add: in_int64_def)
qed

lemma Date_Century_struct:
  "Date_Century jd = f64_div (f64_sub jd (Finite False 5264652799836160 (- 31)))
      (Finite False 5019957775564800 (- 37))"
  by (simp only: Date_Century_def f64_epoch_j2000 f64_days_p_century)

lemma Date_Century_j2000:
  "Date_Century (Finite False 5264652799836160 (- 31)) = Finite False 0 (- 1074)"
  unfolding Date_Century_struct by (simp add: f64_sub_def Let_def)

lemma Date_Century_val:
  assumes f: "is_finite jd" and b: "\<bar>valof jd\<bar> \<le> 2 ^ 970"
  shows "is_finite (Date_Century jd)"
    and "valof (Date_Century jd) = rnd (rnd (valof jd - 2451545) / 36525)"
proof -
  define a where "a = rnd (valof jd - 2451545)"
  have fe: "is_finite (Finite False 5264652799836160 (- 31))" by simp
  have fc: "is_finite (Finite False 5019957775564800 (- 37))" by simp
  have ve: "valof (Finite False 5264652799836160 (- 31)) = 2451545" by simp
  have vc: "valof (Finite False 5019957775564800 (- 37)) = 36525" by simp
  have "(2451545 :: rat) \<le> 2 ^ 970"
  proof -
    have "(2451545 :: rat) \<le> 2 ^ 22" by simp
    also have "\<dots> \<le> 2 ^ 970" by (rule power_increasing) simp_all
    finally show ?thesis .
  qed
  then have "\<bar>valof jd - 2451545\<bar> \<le> 2 ^ 970 + 2 ^ 970" using b by linarith
  also have "(2::rat) ^ 970 + 2 ^ 970 = 2 powi 971" by (simp add: power_int_def)
  finally have x: "\<bar>valof jd - 2451545\<bar> \<le> 2 powi 971" .
  have q: "valof jd - valof (Finite False 5264652799836160 (- 31)) = valof jd - 2451545"
    by (simp only: ve)
  have fs: "is_finite (f64_sub jd (Finite False 5264652799836160 (- 31)))"
    and vs: "valof (f64_sub jd (Finite False 5264652799836160 (- 31))) = a"
    unfolding a_def using f64_sub_val[OF f fe] lt_pow2_1023[OF x] by (simp_all only: q)
  have ab: "\<bar>a\<bar> \<le> 2 powi 971" unfolding a_def using x by (intro rnd_abs_le) simp_all
  have "\<bar>a / 36525\<bar> = \<bar>a\<bar> / 36525" by simp
  also have "\<dots> \<le> \<bar>a\<bar>" by (simp add: divide_le_eq)
  finally have y: "\<bar>a / 36525\<bar> \<le> 2 powi 971" using ab by linarith
  have q2: "valof (f64_sub jd (Finite False 5264652799836160 (- 31)))
      / valof (Finite False 5019957775564800 (- 37)) = a / 36525"
    by (simp only: vs vc)
  have nz: "valof (Finite False 5019957775564800 (- 37)) \<noteq> 0" by simp
  show "is_finite (Date_Century jd)"
    unfolding Date_Century_struct using f64_div_val(1)[OF fs fc nz] lt_pow2_1023[OF y]
    by (simp only: q2)
  show "valof (Date_Century jd) = rnd (rnd (valof jd - 2451545) / 36525)"
    unfolding Date_Century_struct using f64_div_val(2)[OF fs fc nz] lt_pow2_1023[OF y]
    by (simp only: q2 a_def)
qed

section \<open>Day, day number and day fraction; the legacy type\<close>


lemma legacy_consts:
  "seconds = day_seconds" "nanoseconds = day_nanoseconds" "Julian_julian_unix = julian_unix"
  "Julian_days_p_century = days_p_century" "Julian_epoch_j2000 = epoch_j2000"
  by (simp_all add: seconds_def day_seconds_def nanoseconds_def day_nanoseconds_def
      Julian_julian_unix_def julian_unix_def Julian_days_p_century_def days_p_century_def
      Julian_epoch_j2000_def epoch_j2000_def)

lemma legacy_same:
  "Julian_of_Time = Time" "Julian_of_Date = NewDate" "Julian_Gregorian = Date_Gregorian"
  "Julian_Unix = Date_Unix" "Julian_UnixNano = Date_UnixNano" "Julian_Time = Date_Time"
  "Julian_Day = Date_Day" "Julian_DayNumber = Date_DayNumber" "Julian_Century = Date_Century"
  by (intro ext, simp only: legacy_consts Julian_of_Time_def Time_def Julian_of_Date_def NewDate_def
      Julian_Gregorian_def Date_Gregorian_def Julian_Unix_def Date_Unix_def Julian_UnixNano_def
      Date_UnixNano_def Julian_Time_def Date_Time_def Julian_Day_def Date_Day_def
      Julian_DayNumber_def Date_DayNumber_def Julian_Century_def Date_Century_def)+

section \<open>\<open>NewDate\<close>\<close>

lemma NewDate_Time:
  "NewDate time_Date year month day hour minute sec nsec loc =
     (case time_Date year month day hour minute sec nsec loc of Inl p \<Rightarrow> Inl p | Inr t \<Rightarrow> Inr (Time t))"
  by (simp add: NewDate_def Time_def split: sum.splits)

lemma NewDate_panics:
  "(NewDate time_Date year month day hour minute sec nsec loc = Inl Panic)
     = (time_Date year month day hour minute sec nsec loc = Inl Panic)"
  by (auto simp: NewDate_def split: sum.splits)

lemma time_Date_std_panics:
  "(time_Date_std year month day hour minute sec nsec loc = Inl Panic) = (loc = None)"
  by (auto simp: time_Date_std_def Let_def split: option.splits prod.splits)

lemma utc_oct_32:
  "time_Date_std 2011 10 32 0 0 0 0 (Some (\<lambda>u. 0)) = Inr 1320105600000000000"
  "time_Date_std 2011 11 1 0 0 0 0 (Some (\<lambda>u. 0)) = Inr 1320105600000000000"
  by (simp_all add: time_Date_std_def norm_carry_def days_before_civil_def Let_def)

lemma utc_2017: "time_Date_std 2017 1 1 0 0 0 0 (Some (\<lambda>u. 0)) = Inr 1483228800000000000"
  by (simp add: time_Date_std_def norm_carry_def days_before_civil_def Let_def)

section \<open>Sample evaluations\<close>

text \<open>
  The first case of the package's test: 2017-01-01T00:00:00 UTC, 1483228800 seconds
  after the epoch, is the Julian date 2457754.5, without rounding.
\<close>

lemma Time_2017:
  "Time 1483228800000000000 = Finite False 5277987599548416 (- 31)"
  "valof (Finite False 5277987599548416 (- 31)) = 24577545 / 10"
proof -
  have u: "Time_UnixNano 1483228800000000000 = 1483228800000000000"
    by (simp add: Time_UnixNano_def wrap64_def)
  have c: "f64_of_int 1483228800000000000 = Finite False 5793862500000000 8"
    unfolding f64_of_int_def by (rule round_f64_eq) simp_all
  have d: "f64_div (Finite False 5793862500000000 8) (Finite False 5529600000000000 (- 6))
      = Finite False 4718829028507648 (- 38)"
  proof -
    have "round_f64 17167 = Finite False 4718829028507648 (- 38)"
      by (rule round_f64_eq) simp_all
    then show ?thesis by simp
  qed
  have nz: "valof (Finite False 4718829028507648 (- 38)) + valof (Finite False 5241121747763200 (- 31)) \<noteq> 0"
    by simp
  have s: "round_f64 (valof (Finite False 4718829028507648 (- 38)) + valof (Finite False 5241121747763200 (- 31)))
     = Finite False 5277987599548416 (- 31)"
    by (rule round_f64_eq) simp_all
  show "Time 1483228800000000000 = Finite False 5277987599548416 (- 31)"
    unfolding Time_def u c f64_day_nanoseconds f64_julian_unix d
    using s nz by (simp add: Let_def del: valof.simps)
  show "valof (Finite False 5277987599548416 (- 31)) = 24577545 / 10" by simp
qed

text \<open>
  The last instant of the \<open>int64\<close> range: its Julian date converts back to a product
  beyond the range of \<open>int64\<close>.
\<close>

lemma f64_of_int_max: "f64_of_int (2 ^ 63 - 1) = Finite False 4503599627370496 11"
proof -
  define q :: rat where "q = 9223372036854775807"
  have q0: "q \<noteq> 0" and qp: "0 < q" and aq: "\<bar>q\<bar> = q" and nq: "\<not> q < 0" by (simp_all add: q_def)
  have "ilog2 q = 62" using qp by (rule ilog2_unique) (simp_all add: q_def)
  then have ex: "expo q = 10" using qp by (simp add: expo_def)
  have rh: "rhe (q / 2 powi 10) = 2 ^ 53" by (rule rhe_eqI) (simp add: q_def)
  have "round_f64 q = Finite False (2 ^ 52) (10 + 1)"
    by (simp only: round_f64_alt[OF q0] ex aq rh nq if_True) simp
  then show ?thesis by (simp add: f64_of_int_def q_def)
qed

lemma Time_max: "Time (2 ^ 63 - 1) = Finite False 5470369903186419 (- 31)"
proof -
  have u: "Time_UnixNano (2 ^ 63 - 1) = 2 ^ 63 - 1" by (simp add: Time_UnixNano_def wrap64_def)
  have d: "f64_div (Finite False 4503599627370496 11) (Finite False 5529600000000000 (- 6))
      = Finite False 7335940973542994 (- 36)"
  proof -
    have "round_f64 (9223372036854775808 / 86400000000000) = Finite False 7335940973542994 (- 36)"
      by (rule round_f64_certificate) simp_all
    then show ?thesis by simp
  qed
  have nz: "valof (Finite False 7335940973542994 (- 36)) + valof (Finite False 5241121747763200 (- 31)) \<noteq> 0"
    by simp
  have s: "round_f64 (valof (Finite False 7335940973542994 (- 36)) + valof (Finite False 5241121747763200 (- 31)))
     = Finite False 5470369903186419 (- 31)"
    by (rule round_f64_certificate) simp_all
  show ?thesis
    unfolding Time_def u f64_of_int_max f64_day_nanoseconds f64_julian_unix d
    using s nz by (simp add: Let_def del: valof.simps)
qed

lemma UnixNano_Time_max: "Date_UnixNano (Time (2 ^ 63 - 1)) = None"
proof -
  have s: "f64_sub (Finite False 5470369903186419 (- 31)) (Finite False 5241121747763200 (- 31))
      = Finite False 7335940973543008 (- 36)"
  proof -
    have "round_f64 (229248155423219 / 2147483648) = Finite False 7335940973543008 (- 36)"
      by (rule round_f64_eq) simp_all
    then show ?thesis by (simp add: f64_sub_def Let_def)
  qed
  have m: "f64_mul (Finite False 7335940973543008 (- 36)) (Finite False 5529600000000000 (- 6))
      = Finite False 4503599627370504 11"
  proof -
    have "round_f64 (302231454903657861328125 / 32768) = Finite False 4503599627370504 11"
      by (rule round_f64_certificate) simp_all
    then show ?thesis by (simp add: Let_def)
  qed
  have v: "valof (Finite False 4503599627370504 11) = 9223372036854792192" by simp
  have t: "trunc 9223372036854792192 = 9223372036854792192" by (simp add: trunc_def)
  show ?thesis
    unfolding Date_UnixNano_def Time_max f64_julian_unix f64_day_nanoseconds s m
      int64_of_f64.simps v t Let_def
    by (simp add: in_int64_def)
qed

section \<open>The round trip evaluated at the ends of its range\<close>

lemma roundtrip_value_hi: "roundtrip_value 9223372036854773247 = 9223372036854753280"
proof -
  have r0: "rnd (9223372036854773247) = 9223372036854772736"
  proof -
    have "rnd (9223372036854773247) = of_int 9007199254740989 * 2 powi (10)"
      by (rule rnd_cert) simp_all
    then show ?thesis by simp
  qed
  have r1: "rnd (9223372036854772736 / 86400000000000) = 7335940973542992 / 68719476736"
  proof -
    have "rnd (9007199254740989 / 84375000000) = of_int 7335940973542992 * 2 powi (-36)"
      by (rule rnd_cert) simp_all
    then show ?thesis by simp
  qed
  have r2: "rnd (7335940973542992 / 68719476736 + 24405875 / 10) = 5470369903186418 / 2147483648"
  proof -
    have "rnd (10940739806372837 / 4294967296) = of_int 5470369903186418 * 2 powi (-31)"
      by (rule rnd_cert_down) simp_all
    then show ?thesis by simp
  qed
  have r3: "rnd (5470369903186418 / 2147483648 - 24405875 / 10) = 7335940973542976 / 68719476736"
  proof -
    have "rnd (114624077711609 / 1073741824) = of_int 7335940973542976 * 2 powi (-36)"
      by (rule rnd_cert) simp_all
    then show ?thesis by simp
  qed
  have r4: "rnd (7335940973542976 / 68719476736 * 86400000000000) = 9223372036854753280"
  proof -
    have "rnd (151115727451828271484375 / 16384) = of_int 9007199254740970 * 2 powi (10)"
      by (rule rnd_cert) simp_all
    then show ?thesis by simp
  qed
  show ?thesis
    unfolding roundtrip_value_def Time_value_def of_int_minus of_int_numeral r0 r1 r2 r3 r4 ..
qed

lemma roundtrip_value_above: "roundtrip_value 9223372036854773248 = 9223372036854792192"
proof -
  have r0: "rnd (9223372036854773248) = 9223372036854773760"
  proof -
    have "rnd (9223372036854773248) = of_int 9007199254740990 * 2 powi (10)"
      by (rule rnd_cert_up) simp_all
    then show ?thesis by simp
  qed
  have r1: "rnd (9223372036854773760 / 86400000000000) = 7335940973542993 / 68719476736"
  proof -
    have "rnd (300239975158033 / 2812500000) = of_int 7335940973542993 * 2 powi (-36)"
      by (rule rnd_cert) simp_all
    then show ?thesis by simp
  qed
  have r2: "rnd (7335940973542993 / 68719476736 + 24405875 / 10) = 5470369903186419 / 2147483648"
  proof -
    have "rnd (175051836901965393 / 68719476736) = of_int 5470369903186419 * 2 powi (-31)"
      by (rule rnd_cert) simp_all
    then show ?thesis by simp
  qed
  have r3: "rnd (5470369903186419 / 2147483648 - 24405875 / 10) = 7335940973543008 / 68719476736"
  proof -
    have "rnd (229248155423219 / 2147483648) = of_int 7335940973543008 * 2 powi (-36)"
      by (rule rnd_cert) simp_all
    then show ?thesis by simp
  qed
  have r4: "rnd (7335940973543008 / 68719476736 * 86400000000000) = 9223372036854792192"
  proof -
    have "rnd (302231454903657861328125 / 32768) = of_int 4503599627370504 * 2 powi (11)"
      by (rule rnd_cert) simp_all
    then show ?thesis by simp
  qed
  show ?thesis
    unfolding roundtrip_value_def Time_value_def of_int_minus of_int_numeral r0 r1 r2 r3 r4 ..
qed

lemma roundtrip_value_lo: "roundtrip_value (- 9223372036854773247) = - 9223372036854753280"
proof -
  have r0: "rnd (- 9223372036854773247) = - 9223372036854772736"
  proof -
    have "rnd (9223372036854773247) = of_int 9007199254740989 * 2 powi (10)"
      by (rule rnd_cert) simp_all
    then have "rnd (- (9223372036854773247)) = - (of_int 9007199254740989 * 2 powi (10))" by (simp only: rnd_minus)
    then show ?thesis by simp
  qed
  have r1: "rnd ((- 9223372036854772736) / 86400000000000) = - (7335940973542992 / 68719476736)"
  proof -
    have "rnd (9007199254740989 / 84375000000) = of_int 7335940973542992 * 2 powi (-36)"
      by (rule rnd_cert) simp_all
    then have "rnd (- (9007199254740989 / 84375000000)) = - (of_int 7335940973542992 * 2 powi (-36))" by (simp only: rnd_minus)
    then show ?thesis by simp
  qed
  have r2: "rnd (- (7335940973542992 / 68719476736) + 24405875 / 10) = 5011873592339982 / 2147483648"
  proof -
    have "rnd (10023747184679963 / 4294967296) = of_int 5011873592339982 * 2 powi (-31)"
      by (rule rnd_cert_up) simp_all
    then show ?thesis by simp
  qed
  have r3: "rnd (5011873592339982 / 2147483648 - 24405875 / 10) = - (7335940973542976 / 68719476736)"
  proof -
    have "rnd (114624077711609 / 1073741824) = of_int 7335940973542976 * 2 powi (-36)"
      by (rule rnd_cert) simp_all
    then have "rnd (- (114624077711609 / 1073741824)) = - (of_int 7335940973542976 * 2 powi (-36))" by (simp only: rnd_minus)
    then show ?thesis by simp
  qed
  have r4: "rnd (- (7335940973542976 / 68719476736) * 86400000000000) = - 9223372036854753280"
  proof -
    have "rnd (151115727451828271484375 / 16384) = of_int 9007199254740970 * 2 powi (10)"
      by (rule rnd_cert) simp_all
    then have "rnd (- (151115727451828271484375 / 16384)) = - (of_int 9007199254740970 * 2 powi (10))" by (simp only: rnd_minus)
    then show ?thesis by simp
  qed
  show ?thesis
    unfolding roundtrip_value_def Time_value_def of_int_minus of_int_numeral r0 r1 r2 r3 r4 ..
qed

lemma roundtrip_value_below: "roundtrip_value (- 9223372036854773248) = - 9223372036854792192"
proof -
  have r0: "rnd (- 9223372036854773248) = - 9223372036854773760"
  proof -
    have "rnd (9223372036854773248) = of_int 9007199254740990 * 2 powi (10)"
      by (rule rnd_cert_up) simp_all
    then have "rnd (- (9223372036854773248)) = - (of_int 9007199254740990 * 2 powi (10))" by (simp only: rnd_minus)
    then show ?thesis by simp
  qed
  have r1: "rnd ((- 9223372036854773760) / 86400000000000) = - (7335940973542993 / 68719476736)"
  proof -
    have "rnd (300239975158033 / 2812500000) = of_int 7335940973542993 * 2 powi (-36)"
      by (rule rnd_cert) simp_all
    then have "rnd (- (300239975158033 / 2812500000)) = - (of_int 7335940973542993 * 2 powi (-36))" by (simp only: rnd_minus)
    then show ?thesis by simp
  qed
  have r2: "rnd (- (7335940973542993 / 68719476736) + 24405875 / 10) = 5011873592339981 / 2147483648"
  proof -
    have "rnd (160379954954879407 / 68719476736) = of_int 5011873592339981 * 2 powi (-31)"
      by (rule rnd_cert) simp_all
    then show ?thesis by simp
  qed
  have r3: "rnd (5011873592339981 / 2147483648 - 24405875 / 10) = - (7335940973543008 / 68719476736)"
  proof -
    have "rnd (229248155423219 / 2147483648) = of_int 7335940973543008 * 2 powi (-36)"
      by (rule rnd_cert) simp_all
    then have "rnd (- (229248155423219 / 2147483648)) = - (of_int 7335940973543008 * 2 powi (-36))" by (simp only: rnd_minus)
    then show ?thesis by simp
  qed
  have r4: "rnd (- (7335940973543008 / 68719476736) * 86400000000000) = - 9223372036854792192"
  proof -
    have "rnd (302231454903657861328125 / 32768) = of_int 4503599627370504 * 2 powi (11)"
      by (rule rnd_cert) simp_all
    then have "rnd (- (302231454903657861328125 / 32768)) = - (of_int 4503599627370504 * 2 powi (11))" by (simp only: rnd_minus)
    then show ?thesis by simp
  qed
  show ?thesis
    unfolding roundtrip_value_def Time_value_def of_int_minus of_int_numeral r0 r1 r2 r3 r4 ..
qed

lemma Time_value_pair_a: "Time_value 9223372035855099392 = 5470369903161572 / 2147483648"
proof -
  have r0: "rnd (9223372035855099392) = 9223372035855099904"
  proof -
    have "rnd (9223372035855099392) = of_int 9007199253764746 * 2 powi (10)"
      by (rule rnd_cert_up) simp_all
    then show ?thesis by simp
  qed
  have r1: "rnd (9223372035855099904 / 86400000000000) = 7335940972747888 / 68719476736"
  proof -
    have "rnd (4503599626882373 / 42187500000) = of_int 7335940972747888 * 2 powi (-36)"
      by (rule rnd_cert) simp_all
    then show ?thesis by simp
  qed
  have r2: "rnd (7335940972747888 / 68719476736 + 24405875 / 10) = 5470369903161572 / 2147483648"
  proof -
    have "rnd (10940739806323143 / 4294967296) = of_int 5470369903161572 * 2 powi (-31)"
      by (rule rnd_cert_up) simp_all
    then show ?thesis by simp
  qed
  show ?thesis unfolding Time_value_def of_int_minus of_int_numeral r0 r1 r2 ..
qed

lemma Time_value_pair_b: "Time_value 9223372035855141376 = 5470369903161572 / 2147483648"
proof -
  have r0: "rnd (9223372035855141376) = 9223372035855140864"
  proof -
    have "rnd (9223372035855141376) = of_int 9007199253764786 * 2 powi (10)"
      by (rule rnd_cert_down) simp_all
    then show ?thesis by simp
  qed
  have r1: "rnd (9223372035855140864 / 86400000000000) = 7335940972747920 / 68719476736"
  proof -
    have "rnd (4503599626882393 / 42187500000) = of_int 7335940972747920 * 2 powi (-36)"
      by (rule rnd_cert) simp_all
    then show ?thesis by simp
  qed
  have r2: "rnd (7335940972747920 / 68719476736 + 24405875 / 10) = 5470369903161572 / 2147483648"
  proof -
    have "rnd (10940739806323145 / 4294967296) = of_int 5470369903161572 * 2 powi (-31)"
      by (rule rnd_cert_down) simp_all
    then show ?thesis by simp
  qed
  show ?thesis unfolding Time_value_def of_int_minus of_int_numeral r0 r1 r2 ..
qed

section \<open>The instants whose Julian date converts back\<close>

lemma roundtrip_in_range:
  assumes lo: "- 9223372036854773247 \<le> n" and hi: "n \<le> 9223372036854773247"
  shows "\<exists>t. Date_UnixNano (Time n) = Some t \<and> \<bar>t - n\<bar> < 50000"
proof -
  have i: "in_int64 n" using lo hi by (simp add: in_int64_def)
  define v where "v = roundtrip_value n"
  define t where "t = trunc v"
  have "v \<le> roundtrip_value 9223372036854773247" unfolding v_def using hi by (rule roundtrip_value_mono)
  then have vh: "v \<le> 9223372036854753280" by (simp only: roundtrip_value_hi)
  have "roundtrip_value (- 9223372036854773247) \<le> v" unfolding v_def using lo by (rule roundtrip_value_mono)
  then have vl: "- 9223372036854753280 \<le> v" by (simp only: roundtrip_value_lo)
  have "\<bar>of_int t :: rat\<bar> \<le> of_int 9223372036854753280"
    using trunc_abs_le[of v] vh vl unfolding t_def by simp
  then have "(of_int \<bar>t\<bar> :: rat) \<le> of_int 9223372036854753280" by (simp only: of_int_abs)
  then have "\<bar>t\<bar> \<le> 9223372036854753280" by (simp only: of_int_le_iff)
  then have r: "in_int64 t" unfolding in_int64_def by simp linarith
  have te: "\<bar>v - of_int t\<bar> < 1" unfolding t_def by (rule trunc_error)
  have tot: "\<bar>v - of_int n\<bar> \<le> 24563" unfolding v_def using i by (rule UnixNano_chain(2))
  have "\<bar>(of_int t :: rat) - of_int n\<bar> < 24564" using te tot by linarith
  then have "\<bar>(of_int (t - n) :: rat)\<bar> < of_int 24564" by simp
  then have "(of_int \<bar>t - n\<bar> :: rat) < of_int 24564" by (simp only: of_int_abs)
  then have "\<bar>t - n\<bar> < 24564" by (simp only: of_int_less_iff)
  then have d: "\<bar>t - n\<bar> < 50000" by simp
  have "Date_UnixNano (Time n) = Some t"
    using UnixNano_chain(1)[OF i] r by (simp only: v_def[symmetric] t_def[symmetric] if_True)
  then show ?thesis using d by blast
qed

lemma roundtrip_out_of_range:
  assumes i: "in_int64 n" and out: "n < - 9223372036854773247 \<or> 9223372036854773247 < n"
  shows "Date_UnixNano (Time n) = None"
proof -
  define v where "v = roundtrip_value n"
  have "\<not> in_int64 (trunc v)"
  proof (cases "9223372036854773247 < n")
    case True
    then have "9223372036854773248 \<le> n" by simp
    then have "roundtrip_value 9223372036854773248 \<le> v" unfolding v_def by (rule roundtrip_value_mono)
    then have b: "of_int 9223372036854792192 \<le> v" by (simp only: roundtrip_value_above of_int_numeral)
    then have "0 \<le> v" by simp
    then have "trunc v = \<lfloor>v\<rfloor>" by (simp add: trunc_def)
    moreover have "9223372036854792192 \<le> \<lfloor>v\<rfloor>" using b by (simp only: le_floor_iff)
    ultimately show ?thesis by (simp add: in_int64_def)
  next
    case False
    then have "n \<le> - 9223372036854773248" using out by simp
    then have "v \<le> roundtrip_value (- 9223372036854773248)" unfolding v_def by (rule roundtrip_value_mono)
    then have b: "v \<le> of_int (- 9223372036854792192)" by (simp only: roundtrip_value_below of_int_minus of_int_numeral)
    then have "\<not> 0 \<le> v" by simp
    then have "trunc v = \<lceil>v\<rceil>" by (simp add: trunc_def)
    moreover have "\<lceil>v\<rceil> \<le> - 9223372036854792192" using b by (simp only: ceiling_le_iff)
    ultimately show ?thesis by (simp add: in_int64_def)
  qed
  then show ?thesis using UnixNano_chain(1)[OF i] by (simp only: v_def[symmetric] if_False)
qed

lemma Time_coincide: "\<not> f64_lt (Time 9223372035855099392) (Time 9223372035855141376)"
proof -
  have a: "in_int64 9223372035855099392" and b: "in_int64 9223372035855141376"
    by (simp_all add: in_int64_def)
  have "valof (Time 9223372035855099392) = valof (Time 9223372035855141376)"
    by (simp only: Time_value_eq(2)[OF a] Time_value_eq(2)[OF b] Time_value_pair_a Time_value_pair_b)
  then show ?thesis using Time_value_eq(1)[OF a] Time_value_eq(1)[OF b] by (simp only: f64_lt_finite)
qed

section \<open>The claims\<close>

text \<open>
  C1, as stated: the round trip is within 50 microseconds for every instant of the
  nanosecond range. It fails at the last instant of that range,
  2262-04-11T23:47:16.854775807Z: its Julian date, brought back to nanoseconds, is the
  \<open>float64\<close> 9223372036854792192, beyond the range of \<open>int64\<close>, so that \<open>UnixNano\<close> and
  \<open>Gregorian\<close> have no defined result there.
\<close>

theorem roundtrip_fails_at_last_instant:
  "in_int64 9223372036854775807 \<and> Date_Gregorian (Time 9223372036854775807) = None"
  using UnixNano_Time_max by (simp add: Date_Gregorian_def in_int64_def)

text \<open>
  C1, amended: for every instant \<open>n\<close> (nanoseconds since the Unix epoch) with
  \<open>- (2 ^ 63 - 2561) \<le> n \<le> 2 ^ 63 - 2561\<close>, that is from 1677-09-21T00:12:43.145226753Z to
  2262-04-11T23:47:16.854773247Z, \<open>Gregorian\<close> applied to \<open>Time n\<close> returns an instant, and
  it differs from \<open>n\<close> by less than 50000 nanoseconds. The range is exact: at each of the
  2561 instants of the \<open>int64\<close> range beyond it at either end, the product that
  \<open>UnixNano\<close> converts is outside the range of \<open>int64\<close>.
\<close>

theorem roundtrip_within_50us:
  assumes "in_int64 n"
  shows "(- 9223372036854773247 \<le> n \<and> n \<le> 9223372036854773247 \<longrightarrow>
           (\<exists>t. Date_Gregorian (Time n) = Some t \<and> \<bar>t - n\<bar> < 50000))
    \<and> (n < - 9223372036854773247 \<or> 9223372036854773247 < n \<longrightarrow>
           Date_Gregorian (Time n) = None)"
proof -
  have "\<exists>t. Date_Gregorian (Time n) = Some t \<and> \<bar>t - n\<bar> < 50000"
    if h: "- 9223372036854773247 \<le> n \<and> n \<le> 9223372036854773247"
  proof -
    obtain t where "Date_UnixNano (Time n) = Some t" and "\<bar>t - n\<bar> < 50000"
      using roundtrip_in_range[of n] h by blast
    then show ?thesis by (simp add: Date_Gregorian_def time_Unix_def)
  qed
  moreover have "Date_Gregorian (Time n) = None"
    if "n < - 9223372036854773247 \<or> 9223372036854773247 < n"
    using roundtrip_out_of_range[OF assms that] by (simp add: Date_Gregorian_def)
  ultimately show ?thesis by blast
qed

theorem roundtrip_within_50us_witness:
  "in_int64 1266124860000000000
   \<and> - 9223372036854773247 \<le> (1266124860000000000::int)
   \<and> (1266124860000000000::int) \<le> 9223372036854773247
   \<and> (\<exists>t. Date_Gregorian (Time 1266124860000000000) = Some t \<and> \<bar>t - 1266124860000000000\<bar> < 50000)"
proof -
  have i: "in_int64 1266124860000000000" by (simp add: in_int64_def)
  have lo: "- 9223372036854773247 \<le> (1266124860000000000::int)" by simp
  have hi: "(1266124860000000000::int) \<le> 9223372036854773247" by simp
  show ?thesis using i lo hi roundtrip_within_50us[OF i] by blast
qed

text \<open>
  C2. The Unix epoch instant, whose \<open>UnixNano\<close> is 0, converts to the Julian date
  2440587.5 exactly: the result is the \<open>float64\<close> with significand 5241121747763200
  and exponent - 31, whose value is the rational 2440587.5, without any rounding error.
\<close>

theorem Time_unix_epoch:
  "Time 0 = Finite False 5241121747763200 (- 31) \<and> valof (Time 0) = 24405875 / 10"
  by (simp add: Time_0)

text \<open>
  C3, as stated: the day fraction of every Julian date lies in \<open>[0, 1)\<close>. It fails for
  the Julian date - 0.5: \<open>math.Mod\<close> gives the remainder the sign of the dividend, so the
  fraction is - 0.5 and \<open>0 \<le> f\<close> is false.
\<close>

theorem Date_Time_negative:
  "wf_f64 (Finite True 4503599627370496 (- 53))
   \<and> valof (Finite True 4503599627370496 (- 53)) = - (1 / 2)
   \<and> Date_Time (Finite True 4503599627370496 (- 53)) = Finite True 4503599627370496 (- 53)
   \<and> \<not> f64_le (f64_of_int 0) (Date_Time (Finite True 4503599627370496 (- 53)))"
  by (simp add: Date_Time_minus_half f64_zero f64_le_def)

text \<open>
  C3, amended: for every finite Julian date \<open>jd\<close> with \<open>0 \<le> jd\<close>, the day fraction \<open>f\<close>
  satisfies \<open>0 \<le> f\<close> and \<open>f < 1\<close> (Go's comparisons), and it is exactly the value of \<open>jd\<close>
  less its floor.
\<close>

theorem Date_Time_in_unit_interval:
  assumes "wf_f64 jd" and "is_finite jd" and "f64_le (f64_of_int 0) jd"
  shows "f64_le (f64_of_int 0) (Date_Time jd) \<and> f64_lt (Date_Time jd) (f64_of_int 1)
         \<and> valof (Date_Time jd) = valof jd - of_int \<lfloor>valof jd\<rfloor>"
  using Date_Time_range[OF assms] by simp

theorem Date_Time_in_unit_interval_witness:
  "wf_f64 (Finite False 5241121747763200 (- 31)) \<and> is_finite (Finite False 5241121747763200 (- 31))
   \<and> f64_le (f64_of_int 0) (Finite False 5241121747763200 (- 31))
   \<and> f64_le (f64_of_int 0) (Date_Time (Finite False 5241121747763200 (- 31)))
   \<and> f64_lt (Date_Time (Finite False 5241121747763200 (- 31))) (f64_of_int 1)"
proof -
  have a: "wf_f64 (Finite False 5241121747763200 (- 31))" by simp
  have b: "is_finite (Finite False 5241121747763200 (- 31))" by simp
  have c: "f64_le (f64_of_int 0) (Finite False 5241121747763200 (- 31))"
    by (simp add: f64_zero f64_le_def)
  show ?thesis using a b c Date_Time_in_unit_interval[OF a b c] by blast
qed

text \<open>
  C4, as stated: strict monotonicity of \<open>Time\<close>. It fails, because a \<open>float64\<close> near
  2440587.5 has a spacing of \<open>2 ^ - 31\<close> days, about 40 microseconds: the epoch and the
  instant one nanosecond later convert to the same Julian date.
\<close>

theorem Time_not_strictly_monotone:
  "(0::int) < 1 \<and> in_int64 0 \<and> in_int64 1 \<and> \<not> f64_lt (Time 0) (Time 1)"
  by (simp add: Time_0 Time_1 in_int64_def)

text \<open>
  C4, amended: for instants \<open>a\<close> and \<open>b\<close> in the range of \<open>UnixNano\<close> with \<open>a\<close> not
  later than \<open>b\<close>, \<open>Time a \<le> Time b\<close>; and \<open>Time a < Time b\<close> as soon as \<open>b\<close> is at least
  42515 nanoseconds later than \<open>a\<close> (the comparisons are Go's on \<open>float64\<close>). Closer
  instants can have the same Julian date: the spacing of the Julian dates is 40233
  nanoseconds, and \<open>Time_coincide\<close> gives two instants 41984 nanoseconds apart with the
  same one.
\<close>

theorem Time_monotone_strict_apart:
  assumes "in_int64 a" and "in_int64 b" and "a \<le> b"
  shows "f64_le (Time a) (Time b) \<and> (a + 42515 \<le> b \<longrightarrow> f64_lt (Time a) (Time b))"
  using Time_monotone[OF assms] Time_strict[OF assms(1,2)] by blast

theorem Time_monotone_strict_apart_witness:
  "in_int64 0 \<and> in_int64 42515 \<and> (0::int) \<le> 42515 \<and> (0::int) + 42515 \<le> 42515
   \<and> f64_le (Time 0) (Time 42515) \<and> f64_lt (Time 0) (Time 42515)"
proof -
  have a: "in_int64 0" and b: "in_int64 42515" by (simp_all add: in_int64_def)
  have c: "(0::int) \<le> 42515" and d: "(0::int) + 42515 \<le> 42515" by simp_all
  show ?thesis using a b c d Time_monotone_strict_apart[OF a b c] by blast
qed

text \<open>
  C5, as stated: \<open>Unix\<close> returns the floor of \<open>(jd - 2440587.5) * 86400\<close>. It fails for
  the Julian date \<open>2440587.5 - 2 ^ - 20\<close>, the instant 0.0824 seconds before the epoch:
  the product is - 0.0824, its floor is - 1, and the conversion to \<open>int64\<close> discards the
  fraction and returns 0.
\<close>

theorem Date_Unix_not_floor:
  "Date_Unix (Finite False 5241121747761152 (- 31)) = Some 0
   \<and> \<lfloor>(valof (Finite False 5241121747761152 (- 31)) - 24405875 / 10) * 86400\<rfloor> = - 1"
proof -
  have "valof (Finite False 5241121747761152 (- 31)) = 24405875 / 10 - 1 / 1048576" by simp
  then have "(valof (Finite False 5241121747761152 (- 31)) - 24405875 / 10) * 86400 = - (675 / 8192)"
    by simp
  moreover have "\<lfloor>- (675 / 8192) :: rat\<rfloor> = - 1" by (simp add: floor_eq_iff)
  ultimately show ?thesis using Date_Unix_before_epoch by simp
qed

text \<open>
  C5, amended: for every finite Julian date \<open>jd\<close> of magnitude at most \<open>2 ^ 45\<close>, the
  \<open>float64\<close> product \<open>p = (jd - 2440587.5) * 86400\<close> is finite, its value is the exact
  difference, rounded, times 86400 and rounded again (\<open>rnd\<close> is rounding to the nearest
  \<open>float64\<close>), and \<open>Unix\<close> returns \<open>p\<close> truncated towards zero: the floor of \<open>p\<close> when
  \<open>p\<close> is not negative, the ceiling of \<open>p\<close> when it is negative.
\<close>

theorem Date_Unix_truncates:
  assumes "is_finite jd" and "\<bar>valof jd\<bar> \<le> 2 ^ 45"
  shows "is_finite (f64_mul (f64_sub jd (f64_const julian_unix)) (f64_of_int day_seconds))
    \<and> valof (f64_mul (f64_sub jd (f64_const julian_unix)) (f64_of_int day_seconds))
          = rnd (rnd (valof jd - 24405875 / 10) * 86400)
    \<and> Date_Unix jd = Some
        (if 0 \<le> valof (f64_mul (f64_sub jd (f64_const julian_unix)) (f64_of_int day_seconds))
         then \<lfloor>valof (f64_mul (f64_sub jd (f64_const julian_unix)) (f64_of_int day_seconds))\<rfloor>
         else \<lceil>valof (f64_mul (f64_sub jd (f64_const julian_unix)) (f64_of_int day_seconds))\<rceil>)"
  using Date_Unix_val[OF assms] by (simp only: trunc_floor_ceiling simp_thms)

theorem Date_Unix_truncates_witness:
  "is_finite (Finite False 5241121747761152 (- 31))
   \<and> \<bar>valof (Finite False 5241121747761152 (- 31))\<bar> \<le> 2 ^ 45
   \<and> is_finite (f64_mul (f64_sub (Finite False 5241121747761152 (- 31)) (f64_const julian_unix))
         (f64_of_int day_seconds))
   \<and> Date_Unix (Finite False 5241121747761152 (- 31)) = Some 0"
proof -
  have a: "is_finite (Finite False 5241121747761152 (- 31))" by simp
  have b: "\<bar>valof (Finite False 5241121747761152 (- 31))\<bar> \<le> 2 ^ 45" by simp
  show ?thesis using a b Date_Unix_truncates[OF a b] Date_Unix_before_epoch by simp
qed

text \<open>
  C6, as stated: \<open>DayNumber\<close> returns the floor of \<open>jd\<close>, so that it never exceeds \<open>jd\<close>.
  It fails for the Julian date - 0.5: the floor is - 1 and \<open>DayNumber\<close> returns 0, which
  is greater than \<open>jd\<close>.
\<close>

theorem Date_DayNumber_not_floor:
  "Date_DayNumber (Finite True 4503599627370496 (- 53)) = Some 0
   \<and> valof (Finite True 4503599627370496 (- 53)) = - (1 / 2)
   \<and> \<lfloor>valof (Finite True 4503599627370496 (- 53))\<rfloor> = - 1
   \<and> \<not> of_int 0 \<le> valof (Finite True 4503599627370496 (- 53))"
proof -
  have "\<lfloor>- (1 / 2) :: rat\<rfloor> = - 1" by (simp add: floor_eq_iff)
  then show ?thesis using Date_DayNumber_minus_half by simp
qed

text \<open>
  C6, amended: for every finite Julian date \<open>jd\<close> of magnitude below \<open>2 ^ 63\<close>,
  \<open>DayNumber\<close> returns \<open>jd\<close> truncated towards zero: the floor of \<open>jd\<close> when \<open>jd\<close> is not
  negative, so that then \<open>DayNumber jd \<le> jd\<close>, and the ceiling of \<open>jd\<close> when it is negative.
\<close>

theorem Date_DayNumber_truncates:
  assumes "is_finite jd" and "\<bar>valof jd\<bar> < 2 ^ 63"
  shows "Date_DayNumber jd = Some (if 0 \<le> valof jd then \<lfloor>valof jd\<rfloor> else \<lceil>valof jd\<rceil>)
    \<and> (0 \<le> valof jd \<longrightarrow> of_int \<lfloor>valof jd\<rfloor> \<le> valof jd)"
proof -
  have "\<bar>of_int (trunc (valof jd)) :: rat\<bar> < of_int (2 ^ 63)"
    using trunc_abs_le[of "valof jd"] assms(2) by simp
  then have "(of_int \<bar>trunc (valof jd)\<bar> :: rat) < of_int (2 ^ 63)" by (simp only: of_int_abs)
  then have "\<bar>trunc (valof jd)\<bar> < 2 ^ 63" by (simp only: of_int_less_iff)
  then have "in_int64 (trunc (valof jd))" unfolding in_int64_def by linarith
  then have "Date_DayNumber jd = Some (trunc (valof jd))"
    using assms(1) by (intro Date_DayNumber_val)
  then show ?thesis by (simp only: trunc_floor_ceiling) simp
qed

theorem Date_DayNumber_truncates_witness:
  "is_finite (Finite False 5241121747763200 (- 31))
   \<and> \<bar>valof (Finite False 5241121747763200 (- 31))\<bar> < 2 ^ 63
   \<and> Date_DayNumber (Finite False 5241121747763200 (- 31)) = Some 2440587"
proof -
  have a: "is_finite (Finite False 5241121747763200 (- 31))" by simp
  have b: "\<bar>valof (Finite False 5241121747763200 (- 31))\<bar> < 2 ^ 63" by simp
  have c: "\<lfloor>valof (Finite False 5241121747763200 (- 31))\<rfloor> = 2440587" by (simp add: floor_eq_iff)
  have d: "0 \<le> valof (Finite False 5241121747763200 (- 31))" by simp
  show ?thesis using a b Date_DayNumber_truncates[OF a b] c d by (simp del: valof.simps)
qed

text \<open>
  C7. \<open>NewDate\<close> has no failure of its own: it panics exactly when \<open>time.Date\<close> panics,
  and otherwise returns \<open>Time\<close> of the instant that \<open>time.Date\<close> built. \<open>time.Date\<close> is the
  standard library's; its contract, repeated in the comment of \<open>NewDate\<close>, is to panic
  exactly when the location is nil, whatever the calendar fields. For every \<open>time.Date\<close>
  with that contract, \<open>NewDate\<close> panics exactly when the location is nil and completes
  for all field values otherwise.
\<close>

theorem NewDate_panics_iff_nil:
  assumes "\<forall>year month day hour minute sec nsec loc.
     (time_Date year month day hour minute sec nsec loc = Inl Panic) = (loc = None)"
  shows "(NewDate time_Date year month day hour minute sec nsec loc = Inl Panic) = (loc = None)
    \<and> (loc \<noteq> None \<longrightarrow> (\<exists>t. time_Date year month day hour minute sec nsec loc = Inr t
          \<and> NewDate time_Date year month day hour minute sec nsec loc = Inr (Time t)))"
proof -
  have p: "(NewDate time_Date year month day hour minute sec nsec loc = Inl Panic) = (loc = None)"
    using assms by (simp only: NewDate_panics)
  have "\<exists>t. time_Date year month day hour minute sec nsec loc = Inr t
          \<and> NewDate time_Date year month day hour minute sec nsec loc = Inr (Time t)"
    if "loc \<noteq> None"
  proof -
    have "time_Date year month day hour minute sec nsec loc \<noteq> Inl Panic" using assms that by simp
    then obtain t where "time_Date year month day hour minute sec nsec loc = Inr t"
      by (cases "time_Date year month day hour minute sec nsec loc") (auto intro: panic.exhaust)
    then show ?thesis by (simp add: NewDate_Time)
  qed
  then show ?thesis using p by blast
qed

theorem NewDate_panics_iff_nil_witness:
  "(\<forall>year month day hour minute sec nsec loc.
      (time_Date_std year month day hour minute sec nsec loc = Inl Panic) = (loc = None))
   \<and> NewDate time_Date_std 2011 10 32 0 0 0 0 None = Inl Panic
   \<and> NewDate time_Date_std 2011 10 32 0 0 0 0 (Some (\<lambda>u. 0)) = Inr (Time 1320105600000000000)
   \<and> NewDate time_Date_std 2011 11 1 0 0 0 0 (Some (\<lambda>u. 0)) = Inr (Time 1320105600000000000)"
proof -
  have c: "\<forall>year month day hour minute sec nsec loc.
      (time_Date_std year month day hour minute sec nsec loc = Inl Panic) = (loc = None)"
    by (simp only: time_Date_std_panics) simp
  have n: "NewDate time_Date_std 2011 10 32 0 0 0 0 None = Inl Panic"
    using NewDate_panics_iff_nil[OF c, of 2011 10 32 0 0 0 0 None] by simp
  have "(Some (\<lambda>u::int. 0::int)) \<noteq> None" by simp
  then have
    "\<exists>t. time_Date_std 2011 10 32 0 0 0 0 (Some (\<lambda>u. 0)) = Inr t
       \<and> NewDate time_Date_std 2011 10 32 0 0 0 0 (Some (\<lambda>u. 0)) = Inr (Time t)"
    "\<exists>t. time_Date_std 2011 11 1 0 0 0 0 (Some (\<lambda>u. 0)) = Inr t
       \<and> NewDate time_Date_std 2011 11 1 0 0 0 0 (Some (\<lambda>u. 0)) = Inr (Time t)"
    using NewDate_panics_iff_nil[OF c, of 2011 10 32 0 0 0 0 "Some (\<lambda>u. 0)"]
      NewDate_panics_iff_nil[OF c, of 2011 11 1 0 0 0 0 "Some (\<lambda>u. 0)"] by blast+
  then show ?thesis using c n utc_oct_32 by auto
qed

text \<open>
  C8. For every Julian date \<open>jd\<close>, \<open>Century\<close> is \<open>(jd - 2451545.0) / 36525.0\<close> in
  \<open>float64\<close> arithmetic, the two constants being exact as \<open>float64\<close>. For a finite \<open>jd\<close>
  of magnitude at most \<open>2 ^ 970\<close> the result is finite and its value is the exact
  difference, rounded, divided by 36525 and rounded again (\<open>rnd\<close> is rounding to the
  nearest \<open>float64\<close>). At the J2000.0 epoch 2451545.0 the result is exactly the positive
  zero.
\<close>

theorem Date_Century_formula:
  "Date_Century jd = f64_div (f64_sub jd (f64_const 2451545)) (f64_const 36525)
    \<and> valof (f64_const 2451545) = 2451545 \<and> valof (f64_const 36525) = 36525
    \<and> (is_finite jd \<and> \<bar>valof jd\<bar> \<le> 2 ^ 970 \<longrightarrow>
          is_finite (Date_Century jd)
          \<and> valof (Date_Century jd) = rnd (rnd (valof jd - 2451545) / 36525))
    \<and> Date_Century (f64_const 2451545) = Finite False 0 (- 1074)"
proof -
  have e: "f64_const 2451545 = Finite False 5264652799836160 (- 31)"
    using f64_epoch_j2000 by (simp add: f64_const_def f64_of_int_def epoch_j2000_def)
  have c: "f64_const 36525 = Finite False 5019957775564800 (- 37)"
    using f64_days_p_century by (simp add: f64_const_def f64_of_int_def days_p_century_def)
  have ve: "valof (f64_const 2451545) = 2451545" unfolding e by simp
  have vc: "valof (f64_const 36525) = 36525" unfolding c by simp
  have s: "Date_Century jd = f64_div (f64_sub jd (f64_const 2451545)) (f64_const 36525)"
    unfolding e c by (rule Date_Century_struct)
  have v: "is_finite jd \<and> \<bar>valof jd\<bar> \<le> 2 ^ 970 \<longrightarrow>
      is_finite (Date_Century jd)
      \<and> valof (Date_Century jd) = rnd (rnd (valof jd - 2451545) / 36525)"
    using Date_Century_val[of jd] by blast
  have j: "Date_Century (f64_const 2451545) = Finite False 0 (- 1074)"
    unfolding e by (rule Date_Century_j2000)
  show ?thesis using s ve vc v j by blast
qed

theorem Date_Century_formula_witness:
  "is_finite (Finite False 5264652799836160 (- 31))
   \<and> \<bar>valof (Finite False 5264652799836160 (- 31))\<bar> \<le> 2 ^ 970
   \<and> valof (Finite False 5264652799836160 (- 31)) = 2451545
   \<and> Date_Century (Finite False 5264652799836160 (- 31)) = Finite False 0 (- 1074)
   \<and> valof (Date_Century (Finite False 5264652799836160 (- 31))) = 0"
proof -
  have a: "is_finite (Finite False 5264652799836160 (- 31))" by simp
  have v: "valof (Finite False 5264652799836160 (- 31)) = 2451545" by simp
  have "(2451545 :: rat) \<le> 2 ^ 22" by simp
  also have "\<dots> \<le> 2 ^ 970" by (rule power_increasing) simp_all
  finally have "\<bar>2451545 :: rat\<bar> \<le> 2 ^ 970" by simp
  then have b: "\<bar>valof (Finite False 5264652799836160 (- 31))\<bar> \<le> 2 ^ 970" by (simp only: v)
  have "valof (Date_Century (Finite False 5264652799836160 (- 31)))
      = rnd (rnd (valof (Finite False 5264652799836160 (- 31)) - 2451545) / 36525)"
    using Date_Century_formula[of "Finite False 5264652799836160 (- 31)"] a b by blast
  then have z: "valof (Date_Century (Finite False 5264652799836160 (- 31))) = 0" by (simp only: v) simp
  show ?thesis using a b v z Date_Century_j2000 by blast
qed

text \<open>
  C9. The legacy type \<open>Julian\<close> and the type \<open>Date\<close> have the same operations: each
  function of the legacy file is equal to the function of \<open>Date\<close> of the same role.
\<close>

theorem legacy_Julian_identical:
  "Julian_of_Time = Time \<and> Julian_of_Date = NewDate \<and> Julian_Gregorian = Date_Gregorian
   \<and> Julian_Unix = Date_Unix \<and> Julian_UnixNano = Date_UnixNano \<and> Julian_Time = Date_Time
   \<and> Julian_Day = Date_Day \<and> Julian_DayNumber = Date_DayNumber \<and> Julian_Century = Date_Century"
  by (simp only: legacy_same simp_thms)



end
